(* ===== verification/Prelude.thy ===== *)
theory Prelude
  imports Main "HOL-Library.Word"
begin

text \<open>
  Shared vocabulary of the development: Go's machine integers, error values and clock,
  the collections of hints that carry the component proofs, and two general interfaces
  (codecs and state machines) that several components provide.
\<close>

named_theorems pool_frame \<open>which parts of the pool an operation leaves unchanged\<close>
named_theorems pool_inv \<open>operations that keep the invariants of the pool and its clients\<close>

section \<open>Go integers\<close>

text \<open>
  Go's \<open>int\<close> and \<open>int64\<close> are 64-bit two's complement. They are modelled as \<^typ>\<open>int\<close> and
  every increment that could leave the range goes through \<open>go_int\<close>, which wraps.
  \<open>uint32\<close> and \<open>uint64\<close> are machine words.
\<close>

definition go_int :: "int \<Rightarrow> int" where
  "go_int k = (k + 2 ^ 63) mod 2 ^ 64 - 2 ^ 63"

definition in_int64 :: "int \<Rightarrow> bool" where
  "in_int64 k \<longleftrightarrow> - (2 ^ 63) \<le> k \<and> k < 2 ^ 63"

lemma go_int_id [simp]: "in_int64 k \<Longrightarrow> go_int k = k"
  by (simp add: go_int_def in_int64_def)

lemma go_int_range: "in_int64 (go_int k)"
  by (simp add: go_int_def in_int64_def)

lemma in_int64I [intro]: "0 \<le> k \<Longrightarrow> k < 2 ^ 63 \<Longrightarrow> in_int64 k"
  by (simp add: in_int64_def)

text \<open>Go's \<open>%\<close> on signed integers takes the sign of the dividend.\<close>

definition go_rem :: "int \<Rightarrow> int \<Rightarrow> int" where
  "go_rem a b = sgn a * (\<bar>a\<bar> mod \<bar>b\<bar>)"

lemma go_rem_nonneg [simp]: "0 \<le> a \<Longrightarrow> 0 < b \<Longrightarrow> go_rem a b = a mod b"
  by (cases "a = 0") (simp_all add: go_rem_def)

section \<open>Triples\<close>

lemma triple: "p = (fst p, fst (snd p), snd (snd p))"
  by simp

section \<open>Lists\<close>

text \<open>A separator that does not occur in the field next to it can be found again.\<close>

lemma split_at_first:
  "c \<notin> set a \<Longrightarrow> c \<notin> set b \<Longrightarrow> a @ c # x = b @ c # y \<longleftrightarrow> a = b \<and> x = y"
proof (induction a arbitrary: b)
  case Nil
  then show ?case by (cases b) auto
next
  case (Cons z a)
  then show ?case by (cases b) auto
qed

lemma split_at_last:
  assumes "c \<notin> set p" and "c \<notin> set q" and "h @ c # p = h' @ c # q"
  shows "h = h' \<and> p = q"
proof -
  have "rev (h @ c # p) = rev (h' @ c # q)" using assms(3) by (rule arg_cong)
  then have "rev p @ c # rev h = rev q @ c # rev h'" by simp
  then show ?thesis using assms(1,2) by (simp add: split_at_first)
qed

section \<open>Errors\<close>

text \<open>
  A Go error is seen through \<open>Error()\<close> and, for wrapped errors, through \<open>errors.Is\<close>.
  \<open>Sentinel\<close> stands for the error values that come from outside the program (\<open>io.EOF\<close>,
  the errors of the operating system and of the SSH library), \<open>Errorf\<close> for
  \<open>fmt.Errorf\<close> with the error it wraps by \<open>%w\<close>, \<open>OpError\<close> for \<open>*net.OpError\<close>.
\<close>

datatype go_error =
    Sentinel string
  | Errorf string "go_error option"
  | OpError string go_error

fun Error :: "go_error \<Rightarrow> string" where
  "Error (Sentinel s) = s"
| "Error (Errorf s _) = s"
| "Error (OpError s _) = s"

fun errors_Is :: "go_error \<Rightarrow> go_error \<Rightarrow> bool" where
  "errors_Is (Errorf s (Some e)) t \<longleftrightarrow> Errorf s (Some e) = t \<or> errors_Is e t"
| "errors_Is (OpError s e) t \<longleftrightarrow> OpError s e = t \<or> errors_Is e t"
| "errors_Is e t \<longleftrightarrow> e = t"

lemma errors_Is_refl [simp]: "errors_Is e e"
  by (cases "(e, e)" rule: errors_Is.cases) auto

abbreviation err_new :: "string \<Rightarrow> go_error" where
  "err_new s \<equiv> Errorf s None"

section \<open>Time\<close>

text \<open>
  A \<open>time.Time\<close> is its number of nanoseconds since the Unix epoch, a \<open>time.Duration\<close> a
  number of nanoseconds. \<open>zero_time\<close> is Go's zero value, 1 January of year 1.
\<close>

type_synonym time = int
type_synonym duration = int

definition second :: duration where "second = 1000000000"
definition minute :: duration where "minute = 60 * second"
definition zero_time :: time where "zero_time = - 62135596800 * second"

definition Unix :: "time \<Rightarrow> int" where
  "Unix t = t div second"

section \<open>Interfaces\<close>

text \<open>A codec: what is printed or written is read back.\<close>

locale codec =
  fixes enc :: "'a \<Rightarrow> 'b" and dec :: "'b \<Rightarrow> 'a option" and ok :: "'a \<Rightarrow> bool"
  assumes dec_enc: "ok a \<Longrightarrow> dec (enc a) = Some a"
begin

lemma enc_inject: "ok a \<Longrightarrow> ok b \<Longrightarrow> enc a = enc b \<longleftrightarrow> a = b"
  by (metis dec_enc option.inject)

lemma enc_inj_on: "inj_on enc {a. ok a}"
  by (rule inj_onI) (simp add: enc_inject)

end

text \<open>A stream codec reads its value off the front of the input and hands back the rest.\<close>

locale stream_codec =
  fixes enc :: "'a \<Rightarrow> 'b list" and parse :: "'b list \<Rightarrow> ('a \<times> 'b list) option"
    and ok :: "'a \<Rightarrow> bool"
  assumes parse_enc: "ok a \<Longrightarrow> parse (enc a @ rest) = Some (a, rest)"
begin

lemma prefix_free: "ok a \<Longrightarrow> ok b \<Longrightarrow> enc a @ r = enc b @ s \<Longrightarrow> a = b \<and> r = s"
  by (metis parse_enc option.inject prod.inject)

end

sublocale stream_codec \<subseteq> framed: codec enc "\<lambda>bs. map_option fst (parse bs)" ok
  using parse_enc [where rest = "[]"] by unfold_locales simp

text \<open>A machine with an invariant that every event keeps.\<close>

locale machine =
  fixes step :: "'s \<Rightarrow> 'e \<Rightarrow> 's" and inv :: "'s \<Rightarrow> bool"
  assumes step_inv: "inv s \<Longrightarrow> inv (step s e)"
begin

lemma run_inv: "inv s \<Longrightarrow> inv (foldl step s es)"
  by (induction es arbitrary: s) (auto intro: step_inv)

end

end
