(* ===== verification/GoStrings.thy ===== *)
theory GoStrings
  imports Prelude
begin

text \<open>
  The parts of Go's \<open>strings\<close>, \<open>strconv\<close> and \<open>fmt\<close> that the program uses, on byte
  strings: trimming, splitting, prefixes, replacement, lower case, decimal printing and
  parsing.
\<close>

section \<open>Decimal numbers\<close>

definition digit_char :: "nat \<Rightarrow> char" where
  "digit_char d = char_of (48 + d)"

definition char_digit :: "char \<Rightarrow> nat option" where
  "char_digit c =
     (let n = (of_char c :: nat) in if 48 \<le> n \<and> n \<le> 57 then Some (n - 48) else None)"

fun dec_digits :: "nat \<Rightarrow> string" where
  "dec_digits n =
     (if n < 10 then [digit_char n] else dec_digits (n div 10) @ [digit_char (n mod 10)])"

declare dec_digits.simps [simp del]

fun digits_val :: "nat \<Rightarrow> string \<Rightarrow> nat option" where
  "digits_val acc [] = Some acc"
| "digits_val acc (c # cs) =
     (case char_digit c of None \<Rightarrow> None | Some d \<Rightarrow> digits_val (10 * acc + d) cs)"

definition Itoa :: "int \<Rightarrow> string" where
  "Itoa k = (if k < 0 then CHR ''-'' # dec_digits (nat (- k)) else dec_digits (nat k))"

text \<open>\<open>strconv.Atoi\<close>: an optional sign, at least one digit, and a value in \<open>int64\<close>.\<close>

definition Atoi :: "string \<Rightarrow> int option" where
  "Atoi s =
     (let neg = (case s of c # _ \<Rightarrow> c = CHR ''-'' | [] \<Rightarrow> False);
          body = (case s of c # cs \<Rightarrow> if c = CHR ''-'' \<or> c = CHR ''+'' then cs else s | [] \<Rightarrow> [])
      in if body = [] then None
         else (case digits_val 0 body of
                 None \<Rightarrow> None
               | Some n \<Rightarrow>
                   (let k = (if neg then - int n else int n)
                    in if in_int64 k then Some k else None)))"

lemma char_digit_digit_char [simp]: "d < 10 \<Longrightarrow> char_digit (digit_char d) = Some d"
  by (simp add: char_digit_def digit_char_def)

lemma dec_digits_nonempty [simp]: "dec_digits n \<noteq> []"
  by (subst dec_digits.simps) simp

lemma digits_val_append:
  "digits_val acc (xs @ ys) =
     (case digits_val acc xs of None \<Rightarrow> None | Some a \<Rightarrow> digits_val a ys)"
  by (induction xs arbitrary: acc) (auto split: option.splits)

lemma digits_val_dec_digits: "digits_val 0 (dec_digits n) = Some n"
proof (induction n rule: dec_digits.induct)
  case (1 n)
  then show ?case
    by (subst dec_digits.simps) (simp add: digits_val_append)
qed


lemma digits_val_all: "digits_val acc s = Some n \<Longrightarrow> \<forall>c \<in> set s. char_digit c \<noteq> None"
  by (induction s arbitrary: acc) (auto split: option.splits)

lemma dec_digits_chars: "c \<in> set (dec_digits n) \<Longrightarrow> char_digit c \<noteq> None"
  using digits_val_all [OF digits_val_dec_digits] by blast

lemma sign_not_digit [simp]:
  "char_digit (CHR ''-'') = None" "char_digit (CHR ''+'') = None"
  by (simp_all add: char_digit_def)

lemma dec_digits_head:
  obtains c cs where "dec_digits n = c # cs" and "c \<noteq> CHR ''-''" and "c \<noteq> CHR ''+''"
proof -
  obtain c cs where eq: "dec_digits n = c # cs"
    using dec_digits_nonempty [of n] by (cases "dec_digits n") auto
  then have "char_digit c \<noteq> None" using dec_digits_chars [of c n] by simp
  then have "c \<noteq> CHR ''-''" and "c \<noteq> CHR ''+''" by (auto simp: char_digit_def)
  with eq show thesis by (rule that)
qed

text \<open>Printing a number by rewriting.\<close>

lemmas Itoa_simps = Itoa_def dec_digits.simps digit_char_def

lemma Atoi_Itoa: "in_int64 k \<Longrightarrow> Atoi (Itoa k) = Some k"
proof (cases "k < 0")
  case True
  assume "in_int64 k"
  with True show ?thesis by (simp add: Atoi_def Itoa_def digits_val_dec_digits)
next
  case False
  assume "in_int64 k"
  moreover obtain c cs where "dec_digits (nat k) = c # cs" "c \<noteq> CHR ''-''" "c \<noteq> CHR ''+''"
    by (rule dec_digits_head)
  moreover have "digits_val 0 (dec_digits (nat k)) = Some (nat k)"
    by (rule digits_val_dec_digits)
  ultimately show ?thesis using False by (simp add: Atoi_def Itoa_def del: digits_val.simps)
qed

lemma Atoi_range: "Atoi s = Some k \<Longrightarrow> in_int64 k"
  by (auto simp: Atoi_def Let_def split: if_splits option.splits)

interpretation decimal: codec Itoa Atoi in_int64
  by unfold_locales (rule Atoi_Itoa)

lemma Itoa_chars:
  assumes "c \<in> set (Itoa k)"
  shows "c = CHR ''-'' \<or> char_digit c \<noteq> None"
proof (cases "k < 0")
  case True
  with assms have "c = CHR ''-'' \<or> c \<in> set (dec_digits (nat (- k)))" by (simp add: Itoa_def)
  then show ?thesis using dec_digits_chars by blast
next
  case False
  with assms have "c \<in> set (dec_digits (nat k))" by (simp add: Itoa_def)
  then show ?thesis using dec_digits_chars by blast
qed

lemma Itoa_no_colon [simp]: "CHR '':'' \<notin> set (Itoa k)"
  using Itoa_chars [of "CHR '':''" k] by (auto simp: char_digit_def)

lemma Itoa_22: "Itoa 22 = ''22''"
  by code_simp

section \<open>Prefixes, splitting, joining\<close>

definition HasPrefix :: "string \<Rightarrow> string \<Rightarrow> bool" where
  "HasPrefix s p \<longleftrightarrow> take (length p) s = p"

fun Split :: "char \<Rightarrow> string \<Rightarrow> string list" where
  "Split c [] = [[]]"
| "Split c (x # xs) =
     (if x = c then [] # Split c xs
      else (case Split c xs of f # fs \<Rightarrow> (x # f) # fs | [] \<Rightarrow> [[x]]))"

fun Join :: "string \<Rightarrow> string list \<Rightarrow> string" where
  "Join sep [] = []"
| "Join sep [f] = f"
| "Join sep (f # fs) = f @ sep @ Join sep fs"

lemma Split_nonempty [simp]: "Split c s \<noteq> []"
  by (induction s) (auto split: list.splits)

lemma Join_Split: "Join [c] (Split c s) = s"
proof (induction s)
  case (Cons x xs)
  obtain f fs where "Split c xs = f # fs"
    using Split_nonempty [of c xs] by (cases "Split c xs") auto
  with Cons show ?case by (cases fs) auto
qed simp

lemma Split_no_sep: "c \<notin> set s \<Longrightarrow> Split c s = [s]"
  by (induction s) auto

lemma Split_append: "c \<notin> set a \<Longrightarrow> Split c (a @ c # s) = a # Split c s"
  by (induction a) auto

lemma Split_fields: "f \<in> set (Split c s) \<Longrightarrow> c \<notin> set f"
proof (induction s arbitrary: f)
  case (Cons x xs)
  obtain g gs where g: "Split c xs = g # gs"
    using Split_nonempty [of c xs] by (cases "Split c xs") auto
  from Cons.prems g Cons.IH show ?case
    by (auto split: if_splits)
qed simp


lemma HasPrefix_Nil [simp]: "HasPrefix s []"
  by (simp add: HasPrefix_def)

lemma HasPrefix_Cons [simp]:
  "HasPrefix [] (p # ps) = False"
  "HasPrefix (c # cs) (p # ps) = (c = p \<and> HasPrefix cs ps)"
  by (auto simp: HasPrefix_def)

lemma HasPrefix_append: "HasPrefix s p \<longleftrightarrow> (\<exists>r. s = p @ r)"
  by (metis HasPrefix_def append_eq_conv_conj append_take_drop_id)

section \<open>White space\<close>

text \<open>
  The UTF-8 encodings of the code points for which \<open>unicode.IsSpace\<close> holds. No encoding
  is a prefix of another and none can begin inside another character, so working on bytes
  gives the result Go gets by decoding runes.
\<close>

definition space_encodings :: "string list" where
  "space_encodings =
     [[CHR 0x20], [CHR 0x09], [CHR 0x0A], [CHR 0x0B], [CHR 0x0C], [CHR 0x0D],
      [CHR 0xC2, CHR 0x85], [CHR 0xC2, CHR 0xA0], [CHR 0xE1, CHR 0x9A, CHR 0x80],
      [CHR 0xE2, CHR 0x80, CHR 0x80], [CHR 0xE2, CHR 0x80, CHR 0x81],
      [CHR 0xE2, CHR 0x80, CHR 0x82], [CHR 0xE2, CHR 0x80, CHR 0x83],
      [CHR 0xE2, CHR 0x80, CHR 0x84], [CHR 0xE2, CHR 0x80, CHR 0x85],
      [CHR 0xE2, CHR 0x80, CHR 0x86], [CHR 0xE2, CHR 0x80, CHR 0x87],
      [CHR 0xE2, CHR 0x80, CHR 0x88], [CHR 0xE2, CHR 0x80, CHR 0x89],
      [CHR 0xE2, CHR 0x80, CHR 0x8A], [CHR 0xE2, CHR 0x80, CHR 0xA8],
      [CHR 0xE2, CHR 0x80, CHR 0xA9], [CHR 0xE2, CHR 0x80, CHR 0xAF],
      [CHR 0xE2, CHR 0x81, CHR 0x9F], [CHR 0xE3, CHR 0x80, CHR 0x80]]"

text \<open>The encoding in a list that a string starts with, if any.\<close>

definition leading :: "string list \<Rightarrow> string \<Rightarrow> string option" where
  "leading es s = find (\<lambda>e. e \<noteq> [] \<and> HasPrefix s e) es"

lemma leading_SomeD: "leading es s = Some e \<Longrightarrow> e \<noteq> [] \<and> HasPrefix s e"
  by (auto simp: leading_def find_Some_iff)

function trim_front :: "string list \<Rightarrow> string \<Rightarrow> string" where
  "trim_front es s =
     (case leading es s of None \<Rightarrow> s | Some e \<Rightarrow> trim_front es (drop (length e) s))"
  by pat_completeness auto
termination
  by (relation "measure (\<lambda>(es, s). length s)") (auto dest!: leading_SomeD simp: HasPrefix_append)

declare trim_front.simps [simp del]

definition TrimSpace :: "string \<Rightarrow> string" where
  "TrimSpace s =
     rev (trim_front (map rev space_encodings) (rev (trim_front space_encodings s)))"

lemma trim_front_Nil [simp]: "trim_front es [] = []"
  by (subst trim_front.simps) (auto split: option.splits dest!: leading_SomeD simp: HasPrefix_def)

text \<open>A string is trimmed already when its first byte starts no encoding.\<close>

lemma trim_front_id:
  assumes "\<forall>e \<in> set es. e = [] \<or> hd e \<noteq> c"
  shows "trim_front es (c # cs) = c # cs"
proof -
  have "\<not> (e \<noteq> [] \<and> HasPrefix (c # cs) e)" if "e \<in> set es" for e
    using assms that by (cases e) auto
  then have "leading es (c # cs) = None"
    by (auto simp: leading_def find_None_iff)
  then show ?thesis by (subst trim_front.simps) simp
qed

lemma digit_not_space:
  assumes "char_digit c \<noteq> None \<or> c = CHR ''-''"
  shows "\<forall>e \<in> set space_encodings. e = [] \<or> hd e \<noteq> c"
    and "\<forall>e \<in> set (map rev space_encodings). e = [] \<or> hd e \<noteq> c"
  using assms by (auto simp: space_encodings_def char_digit_def)

lemma leading_newline: "leading (map rev space_encodings) (CHR 0x0A # s) = Some [CHR 0x0A]"
  by (simp add: leading_def space_encodings_def)

lemma TrimSpace_Itoa_newline: "TrimSpace (Itoa k @ [CHR 0x0A]) = Itoa k"
proof -
  have ok: "char_digit c \<noteq> None \<or> c = CHR ''-''" if "c \<in> set (Itoa k)" for c
    using Itoa_chars [OF that] by auto
  have ne: "Itoa k \<noteq> []" by (simp add: Itoa_def)
  then obtain c cs where front: "Itoa k = c # cs" by (cases "Itoa k") auto
  from ne obtain d ds where rear: "rev (Itoa k) = d # ds" by (cases "rev (Itoa k)") auto
  have c: "c \<in> set (Itoa k)" using front by simp
  have "d \<in> set (rev (Itoa k))" unfolding rear by simp
  then have d: "d \<in> set (Itoa k)" by simp
  have "trim_front space_encodings (Itoa k @ [CHR 0x0A]) = Itoa k @ [CHR 0x0A]"
    using trim_front_id [OF digit_not_space(1) [OF ok [OF c]]] front by simp
  moreover have "trim_front (map rev space_encodings) (CHR 0x0A # d # ds) = d # ds"
    using trim_front_id [OF digit_not_space(2) [OF ok [OF d]]]
    by (subst trim_front.simps) (simp add: leading_newline)
  ultimately show ?thesis
    using rear by (simp add: TrimSpace_def)
qed

function fields_from :: "string \<Rightarrow> string \<Rightarrow> string list" where
  "fields_from cur s =
     (case leading space_encodings s of
        Some e \<Rightarrow>
          (if cur = [] then fields_from [] (drop (length e) s)
           else cur # fields_from [] (drop (length e) s))
      | None \<Rightarrow>
          (case s of
             [] \<Rightarrow> (if cur = [] then [] else [cur])
           | c # cs \<Rightarrow> fields_from (cur @ [c]) cs))"
  by pat_completeness auto
termination
  by (relation "measure (\<lambda>(cur, s). length s)") (auto dest!: leading_SomeD simp: HasPrefix_append)

declare fields_from.simps [simp del]

text \<open>\<open>strings.Fields\<close>: the maximal runs of bytes that are not white space.\<close>

definition Fields :: "string \<Rightarrow> string list" where
  "Fields s = fields_from [] s"

lemma fields_from_nonempty: "f \<in> set (fields_from cur s) \<Longrightarrow> f \<noteq> []"
proof (induction cur s rule: fields_from.induct)
  case (1 cur s)
  from "1.prems" "1.IH" show ?case
    by (subst (asm) fields_from.simps [of cur s])
      (fastforce split: option.splits list.splits if_splits)
qed

section \<open>Lower case and replacement\<close>

definition ascii_lower :: "char \<Rightarrow> char" where
  "ascii_lower c =
     (let n = (of_char c :: nat) in if 65 \<le> n \<and> n \<le> 90 then char_of (n + 32) else c)"

text \<open>
  \<open>strings.ToLower\<close> as far as a comparison with an ASCII string can tell: the ASCII letters,
  and the two code points beyond ASCII whose lower case is ASCII, KELVIN SIGN (U+212A) and
  LATIN CAPITAL LETTER I WITH DOT ABOVE (U+0130). Every other code point beyond ASCII has a
  lower case beyond ASCII; its bytes are left alone.
\<close>

fun ToLower :: "string \<Rightarrow> string" where
  "ToLower [] = []"
| "ToLower (c # cs) =
     (if HasPrefix (c # cs) [CHR 0xE2, CHR 0x84, CHR 0xAA] then CHR ''k'' # ToLower (drop 2 cs)
      else if HasPrefix (c # cs) [CHR 0xC4, CHR 0xB0] then CHR ''i'' # ToLower (drop 1 cs)
      else ascii_lower c # ToLower cs)"

text \<open>
  \<open>strings.EqualFold\<close> against an ASCII string none of whose letters folds with a code point
  beyond ASCII (the program compares with \<open>true\<close> only).
\<close>

definition EqualFold :: "string \<Rightarrow> string \<Rightarrow> bool" where
  "EqualFold s t \<longleftrightarrow> map ascii_lower s = map ascii_lower t"

function ReplaceAll :: "string \<Rightarrow> string \<Rightarrow> string \<Rightarrow> string" where
  "ReplaceAll old new s =
     (if old \<noteq> [] \<and> HasPrefix s old then new @ ReplaceAll old new (drop (length old) s)
      else (case s of [] \<Rightarrow> [] | c # cs \<Rightarrow> c # ReplaceAll old new cs))"
  by pat_completeness auto
termination
  by (relation "measure (\<lambda>(old, new, s). length s)") (auto simp: HasPrefix_append)

declare ReplaceAll.simps [simp del]

section \<open>Paths\<close>

text \<open>\<open>filepath.Clean\<close> and \<open>filepath.Join\<close> on a system whose separator is the slash.\<close>

fun clean_step :: "bool \<Rightarrow> string list \<Rightarrow> string \<Rightarrow> string list" where
  "clean_step rooted st e =
     (if e = [] \<or> e = ''.'' then st
      else if e = ''..'' then
        (case st of
           [] \<Rightarrow> (if rooted then [] else [''..''])
         | t # ts \<Rightarrow> (if t = ''..'' then ''..'' # st else ts))
      else e # st)"

definition Clean :: "string \<Rightarrow> string" where
  "Clean p =
     (let rooted = HasPrefix p ''/'';
          body = Join ''/'' (rev (foldl (clean_step rooted) [] (Split (CHR ''/'') p)))
      in if rooted then ''/'' @ body else if body = [] then ''.'' else body)"

definition path_Join :: "string list \<Rightarrow> string" where
  "path_Join es =
     (case dropWhile (\<lambda>e. e = []) es of [] \<Rightarrow> [] | rest \<Rightarrow> Clean (Join ''/'' rest))"

section \<open>Quoting\<close>

text \<open>
  The \<open>%q\<close> verb of \<open>fmt\<close>. ASCII text is quoted as \<open>strconv.Quote\<close> does it; bytes beyond ASCII
  are kept (Go escapes those that do not form a printable rune).
\<close>

definition hex_digit :: "nat \<Rightarrow> char" where
  "hex_digit d = (if d < 10 then char_of (48 + d) else char_of (87 + d))"

definition quote_char :: "char \<Rightarrow> string" where
  "quote_char c =
     (let n = (of_char c :: nat) in
      if n = 34 then [CHR 0x5C, CHR 0x22]
      else if n = 92 then [CHR 0x5C, CHR 0x5C]
      else if n = 7 then [CHR 0x5C, CHR ''a'']
      else if n = 8 then [CHR 0x5C, CHR ''b'']
      else if n = 12 then [CHR 0x5C, CHR ''f'']
      else if n = 10 then [CHR 0x5C, CHR ''n'']
      else if n = 13 then [CHR 0x5C, CHR ''r'']
      else if n = 9 then [CHR 0x5C, CHR ''t'']
      else if n = 11 then [CHR 0x5C, CHR ''v'']
      else if n < 32 \<or> n = 127 then
        [CHR 0x5C, CHR ''x'', hex_digit (n div 16), hex_digit (n mod 16)]
      else [c])"

definition Quote :: "string \<Rightarrow> string" where
  "Quote s = [CHR 0x22] @ concat (map quote_char s) @ [CHR 0x22]"

end
