(* ===== verification/Env.thy ===== *)
theory Env
  imports GoStrings
begin

text \<open>
  What the program asks of its surroundings: the clock, the file system, child processes
  and the SSH library. None of it is code of the repository, so it is a parameter, the
  record \<open>env\<close>. Every question is numbered: the n-th interaction of a run is answered by
  applying the field to \<open>n\<close>, so the answers may differ from one call to the next in any way.
  A function that interacts takes the number of interactions so far (a \<open>tick\<close>) and returns
  the new number.
\<close>

type_synonym tick = nat
type_synonym signer = nat

text \<open>
  An \<open>*ssh.Client\<close> is a handle; \<open>conn_present\<close> says whether its embedded \<open>Conn\<close> is non-nil.
\<close>

record ssh_conn =
  conn_id :: nat
  conn_present :: bool

datatype ssh_auth = PublicKeys signer | Password string

datatype host_key_callback = InsecureIgnoreHostKey

record ClientConfig =
  cfg_User :: string
  cfg_Auth :: "ssh_auth list"
  cfg_HostKeyCallback :: host_key_callback
  cfg_Timeout :: duration

record env =
  time_now :: "tick \<Rightarrow> time"
  read_file :: "tick \<Rightarrow> string \<Rightarrow> go_error + string"
  stat_ok :: "tick \<Rightarrow> string \<Rightarrow> bool"
  current_home :: "tick \<Rightarrow> go_error + string"
  parse_private_key :: "string \<Rightarrow> go_error + signer"
  stdout_pipe :: "tick \<Rightarrow> go_error option"
  stdin_pipe :: "tick \<Rightarrow> go_error option"
  start_command :: "tick \<Rightarrow> string list \<Rightarrow> go_error option"
  parse_ip :: "string \<Rightarrow> string option"
  new_client_conn :: "tick \<Rightarrow> string \<Rightarrow> ClientConfig \<Rightarrow> go_error + ssh_conn"
  ssh_dial :: "tick \<Rightarrow> string \<Rightarrow> string \<Rightarrow> ClientConfig \<Rightarrow> go_error + ssh_conn"
  send_keepalive :: "tick \<Rightarrow> ssh_conn \<Rightarrow> go_error option"
  conn_close :: "tick \<Rightarrow> ssh_conn \<Rightarrow> go_error option"
  conn_dial :: "tick \<Rightarrow> ssh_conn \<Rightarrow> string \<Rightarrow> string \<Rightarrow> go_error + nat"

text \<open>
  What the SSH library documents of its constructors: a client it returns has its connection.
\<close>

definition ssh_library_ok :: "env \<Rightarrow> bool" where
  "ssh_library_ok E \<longleftrightarrow>
     (\<forall>n nw a cfg h. ssh_dial E n nw a cfg = Inr h \<longrightarrow> conn_present h) \<and>
     (\<forall>n a cfg h. new_client_conn E n a cfg = Inr h \<longrightarrow> conn_present h)"

lemma ssh_library_okD:
  assumes "ssh_library_ok E"
  shows "ssh_dial E n nw a cfg = Inr h \<Longrightarrow> conn_present h"
    and "new_client_conn E n a cfg = Inr h \<Longrightarrow> conn_present h"
  using assms by (auto simp: ssh_library_ok_def)

text \<open>
  A concrete surrounding for evaluation: one second passes per interaction, files are
  readable, keys parse, and an upstream answers exactly when its address is in the list.
\<close>

definition sample_env :: "string list \<Rightarrow> env" where
  "sample_env up =
     \<lparr>time_now = (\<lambda>n. (1700000000 + int n) * second),
      read_file = (\<lambda>n p. Inr p),
      stat_ok = (\<lambda>n p. True),
      current_home = (\<lambda>n. Inr ''/root''),
      parse_private_key = (\<lambda>s. Inr 7),
      stdout_pipe = (\<lambda>n. None),
      stdin_pipe = (\<lambda>n. None),
      start_command = (\<lambda>n ps. None),
      parse_ip = (\<lambda>s. None),
      new_client_conn = (\<lambda>n a cfg.
        if a \<in> set up then Inr \<lparr>conn_id = n, conn_present = True\<rparr>
        else Inl (Sentinel ''handshake'')),
      ssh_dial = (\<lambda>n nw a cfg.
        if a \<in> set up then Inr \<lparr>conn_id = n, conn_present = True\<rparr>
        else Inl (Sentinel ''refused'')),
      send_keepalive = (\<lambda>n h. None),
      conn_close = (\<lambda>n h. None),
      conn_dial = (\<lambda>n h nw a. Inr n)\<rparr>"

lemma sample_env_ok: "ssh_library_ok (sample_env up)"
  by (auto simp: ssh_library_ok_def sample_env_def split: if_splits)

end
