(* ===== verification/SshServer.thy ===== *)
theory SshServer
  imports Env
begin

text \<open>
  The upstream server description and the client configuration derived from it
  (\<open>internal/sshroundrobin/sshserver.go\<close>).
\<close>

text \<open>
  \<open>AuthMethod\<close> is a Go \<open>int\<close> with three named values; the last constructor stands for every
  other number, which the code answers in its \<open>default\<close> branches.
\<close>

datatype AuthMethod =
    AuthMethodKey
  | AuthMethodPassword
  | AuthMethodProxyCommand
  | AuthMethodOther int

record SSHServer =
  s_Host :: string
  s_Port :: int
  s_Username :: string
  s_AuthMethod :: AuthMethod
  s_KeyPath :: string
  s_Password :: string
  s_ProxyCommand :: string

definition Addr :: "SSHServer \<Rightarrow> string" where
  "Addr s = s_Host s @ '':'' @ Itoa (s_Port s)"

fun AuthMethod_String :: "AuthMethod \<Rightarrow> string" where
  "AuthMethod_String AuthMethodKey = ''key''"
| "AuthMethod_String AuthMethodPassword = ''password''"
| "AuthMethod_String AuthMethodProxyCommand = ''proxycommand''"
| "AuthMethod_String (AuthMethodOther _) = ''unknown''"

definition loadPrivateKey :: "env \<Rightarrow> string \<Rightarrow> tick \<Rightarrow> (go_error + signer) \<times> tick" where
  "loadPrivateKey E path n =
     (case read_file E n path of
        Inl e \<Rightarrow> (Inl (Errorf (''failed to read key file: '' @ Error e) (Some e)), Suc n)
      | Inr keyData \<Rightarrow>
          (case parse_private_key E keyData of
             Inl e \<Rightarrow> (Inl (Errorf (''failed to parse private key: '' @ Error e) (Some e)), Suc n)
           | Inr signer \<Rightarrow> (Inr signer, Suc n)))"

text \<open>The \<open>switch\<close> of \<open>Config\<close>, which collects the authentication methods.\<close>

definition authMethods :: "env \<Rightarrow> SSHServer \<Rightarrow> tick \<Rightarrow> (go_error + ssh_auth list) \<times> tick" where
  "authMethods E s n =
     (case s_AuthMethod s of
        AuthMethodKey \<Rightarrow>
          (case loadPrivateKey E (s_KeyPath s) n of
             (Inl e, n1) \<Rightarrow> (Inl e, n1)
           | (Inr k, n1) \<Rightarrow> (Inr [PublicKeys k], n1))
      | AuthMethodPassword \<Rightarrow> (Inr [Password (s_Password s)], n)
      | AuthMethodProxyCommand \<Rightarrow>
          (let pw = (if s_Password s \<noteq> [] then [Password (s_Password s)] else [])
           in if s_KeyPath s \<noteq> [] then
                (case loadPrivateKey E (s_KeyPath s) n of
                   (Inl e, n1) \<Rightarrow> (Inl e, n1)
                 | (Inr k, n1) \<Rightarrow> (Inr (PublicKeys k # pw), n1))
              else (Inr pw, n))
      | AuthMethodOther _ \<Rightarrow> (Inl (err_new ''unknown auth method''), n))"

definition Config :: "env \<Rightarrow> SSHServer \<Rightarrow> tick \<Rightarrow> (go_error + ClientConfig) \<times> tick" where
  "Config E s n =
     (case authMethods E s n of
        (Inl e, n1) \<Rightarrow> (Inl e, n1)
      | (Inr auths, n1) \<Rightarrow>
          if auths = [] then (Inl (err_new ''no auth methods configured''), n1)
          else (Inr \<lparr>cfg_User = s_Username s, cfg_Auth = auths,
                     cfg_HostKeyCallback = InsecureIgnoreHostKey,
                     cfg_Timeout = 15 * second\<rparr>, n1))"

section \<open>Properties\<close>

lemma loadPrivateKey_tick: "snd (loadPrivateKey E p n) = Suc n"
  by (simp add: loadPrivateKey_def split: sum.split)

lemma authMethods_tick_mono: "n \<le> snd (authMethods E s n)"
  using loadPrivateKey_tick [of E "s_KeyPath s" n]
  by (auto simp: authMethods_def Let_def split: AuthMethod.split prod.split sum.split)

lemma Config_ok:
  assumes "Config E s n = (Inr cfg, n1)"
  shows "cfg_Auth cfg \<noteq> []" and "cfg_User cfg = s_Username s" and "cfg_Timeout cfg = 15 * second"
  using assms by (auto simp: Config_def split: prod.splits sum.splits if_splits)

text \<open>
  Addresses identify host and port: the port is printed without a colon, so the last colon
  separates the two.
\<close>

lemma Addr_inject:
  assumes "in_int64 (s_Port s)" and "in_int64 (s_Port t)"
  shows "Addr s = Addr t \<longleftrightarrow> s_Host s = s_Host t \<and> s_Port s = s_Port t"
proof
  assume "Addr s = Addr t"
  then have "s_Host s @ CHR '':'' # Itoa (s_Port s) = s_Host t @ CHR '':'' # Itoa (s_Port t)"
    by (simp add: Addr_def)
  from split_at_last [OF Itoa_no_colon Itoa_no_colon this]
  show "s_Host s = s_Host t \<and> s_Port s = s_Port t"
    using decimal.enc_inject [OF assms] by simp
qed (simp add: Addr_def)

end
