(* ===== verification/CommandConn.thy ===== *)
theory CommandConn
  imports SshServer
begin

text \<open>
  The connection over a child process's pipes and the dialling through a proxy command
  (\<open>internal/sshroundrobin/commandconn.go\<close>). A connection's state is what \<open>Close\<close> and the
  deadline setters touch: the \<open>closed\<close> flag, the two pipe ends, the child process and the
  timers that \<open>time.AfterFunc\<close> has started. \<open>Read\<close> and \<open>Write\<close>, which hand the buffer to the
  pipes, are in \<open>CommandPipes\<close>.
\<close>

datatype process = Running | Reaped

record commandConn =
  k_stdin_open :: bool
  k_stdout_open :: bool
  k_process :: "process option"
  k_remote :: "string option \<times> int"
  k_closed :: bool
  k_timers :: "time list"

definition Conn_Close :: "commandConn \<Rightarrow> commandConn" where
  "Conn_Close c =
     (if k_closed c then c
      else c\<lparr>k_closed := True, k_stdin_open := False, k_stdout_open := False,
             k_process := map_option (\<lambda>_. Reaped) (k_process c)\<rparr>)"

definition LocalAddr :: "string \<times> int" where
  "LocalAddr = (''127.0.0.1'', 0)"

definition RemoteAddr :: "commandConn \<Rightarrow> string option \<times> int" where
  "RemoteAddr c = k_remote c"

definition SetDeadline :: "time \<Rightarrow> commandConn \<Rightarrow> commandConn" where
  "SetDeadline t c = (if t = zero_time then c else c\<lparr>k_timers := t # k_timers c\<rparr>)"

definition SetReadDeadline :: "time \<Rightarrow> commandConn \<Rightarrow> commandConn" where
  "SetReadDeadline t c = (if t = zero_time then c else c\<lparr>k_timers := t # k_timers c\<rparr>)"

definition SetWriteDeadline :: "time \<Rightarrow> commandConn \<Rightarrow> commandConn" where
  "SetWriteDeadline t c = (if t = zero_time then c else c\<lparr>k_timers := t # k_timers c\<rparr>)"

text \<open>The runtime fires the timers that are due; each one calls \<open>Close\<close>.\<close>

definition fire_timers :: "time \<Rightarrow> commandConn \<Rightarrow> commandConn" where
  "fire_timers now c =
     (let due = filter (\<lambda>t. t \<le> now) (k_timers c);
          c1 = c\<lparr>k_timers := filter (\<lambda>t. now < t) (k_timers c)\<rparr>
      in if due = [] then c1 else Conn_Close c1)"

datatype conn_event = CloseCall | Deadline time | ReadDeadline time | WriteDeadline time | Clock time

fun conn_step :: "commandConn \<Rightarrow> conn_event \<Rightarrow> commandConn" where
  "conn_step c CloseCall = Conn_Close c"
| "conn_step c (Deadline t) = SetDeadline t c"
| "conn_step c (ReadDeadline t) = SetReadDeadline t c"
| "conn_step c (WriteDeadline t) = SetWriteDeadline t c"
| "conn_step c (Clock now) = fire_timers now c"

text \<open>
  The state of a connection that \<open>dialViaProxyCommand\<close> builds: the closed flag, both pipe ends
  and the child process move together, so a closed connection leaks neither.
\<close>

definition conn_inv :: "commandConn \<Rightarrow> bool" where
  "conn_inv c \<longleftrightarrow>
     k_stdin_open c = (\<not> k_closed c) \<and> k_stdout_open c = (\<not> k_closed c) \<and>
     k_process c = Some (if k_closed c then Reaped else Running)"

lemma Conn_Close_inv: "conn_inv c \<Longrightarrow> conn_inv (Conn_Close c)"
  by (simp add: conn_inv_def Conn_Close_def)

lemma Conn_Close_idem: "Conn_Close (Conn_Close c) = Conn_Close c"
  by (simp add: Conn_Close_def)

lemma Conn_Close_closed [simp]: "k_closed (Conn_Close c)"
  by (simp add: Conn_Close_def)

lemma conn_step_inv: "conn_inv c \<Longrightarrow> conn_inv (conn_step c e)"
  by (cases e)
    (auto simp: conn_inv_def Conn_Close_def SetDeadline_def SetReadDeadline_def
      SetWriteDeadline_def fire_timers_def Let_def)

interpretation conn_machine: machine conn_step conn_inv
  by unfold_locales (rule conn_step_inv)

lemma conn_step_closed: "k_closed c \<Longrightarrow> k_closed (conn_step c e)"
  by (cases e)
    (auto simp: Conn_Close_def SetDeadline_def SetReadDeadline_def
      SetWriteDeadline_def fire_timers_def Let_def)

interpretation conn_closed: machine conn_step k_closed
  by unfold_locales (rule conn_step_closed)

section \<open>Dialling through a proxy command\<close>

text \<open>
  The command line: trimming, the optional OpenSSH keyword, the substitutions (whose result
  the start error quotes) and the split into arguments.
\<close>

definition proxy_argv :: "SSHServer \<Rightarrow> go_error + (string \<times> string list)" where
  "proxy_argv s =
     (let pc = TrimSpace (s_ProxyCommand s) in
      if pc = [] then Inl (err_new ''empty proxy command'')
      else
        (let pc1 = (if HasPrefix (ToLower pc) ''proxycommand ''
                    then TrimSpace (drop (length ''ProxyCommand '') pc) else pc);
             r1 = ReplaceAll ''%h'' (s_Host s) pc1;
             r2 = ReplaceAll ''%p'' (Itoa (s_Port s)) r1;
             parts = Fields r2
         in if parts = [] then Inl (err_new ''invalid proxy command'') else Inr (r2, parts)))"

text \<open>
  The second component of the result is the connection over the child's pipes, once the
  child has been started.
\<close>

definition dialViaProxyCommand ::
    "env \<Rightarrow> SSHServer \<Rightarrow> ClientConfig \<Rightarrow> tick \<Rightarrow> (go_error + ssh_conn) \<times> commandConn option \<times> tick" where
  "dialViaProxyCommand E s cfg n =
     (case proxy_argv s of
        Inl e \<Rightarrow> (Inl e, None, n)
      | Inr (replaced, parts) \<Rightarrow>
          (case stdout_pipe E n of
             Some e \<Rightarrow>
               (Inl (Errorf (''failed to create proxy stdout pipe: '' @ Error e) (Some e)), None, n + 1)
           | None \<Rightarrow>
          (case stdin_pipe E (n + 1) of
             Some e \<Rightarrow>
               (Inl (Errorf (''failed to create proxy stdin pipe: '' @ Error e) (Some e)), None, n + 2)
           | None \<Rightarrow>
          (case start_command E (n + 2) parts of
             Some e \<Rightarrow>
               (Inl (Errorf (''failed to start proxy command '' @ Quote replaced @ '': '' @ Error e)
                  (Some e)), None, n + 3)
           | None \<Rightarrow>
               (let conn = \<lparr>k_stdin_open = True, k_stdout_open = True, k_process = Some Running,
                            k_remote = (parse_ip E (s_Host s), s_Port s),
                            k_closed = False, k_timers = []\<rparr>
                in case new_client_conn E (n + 3) (Addr s) cfg of
                     Inl e \<Rightarrow>
                       (Inl (Errorf (''proxy ssh handshake failed: '' @ Error e) (Some e)),
                        Some (Conn_Close conn), n + 4)
                   | Inr h \<Rightarrow> (Inr h, Some conn, n + 4))))))"

lemma dialViaProxyCommand_conn:
  assumes "dialViaProxyCommand E s cfg n = (r, Some c, n1)"
  shows "conn_inv c" and "k_closed c \<longleftrightarrow> (\<exists>e. r = Inl e)"
  using assms
  by (auto simp: dialViaProxyCommand_def conn_inv_def Conn_Close_def Let_def
      split: sum.splits option.splits)

lemma dialViaProxyCommand_present:
  assumes "ssh_library_ok E" and "dialViaProxyCommand E s cfg n = (Inr h, c, n1)"
  shows "conn_present h"
  using assms(2) ssh_library_okD [OF assms(1)]
  by (auto simp: dialViaProxyCommand_def Let_def split: sum.splits option.splits)

lemma proxy_argv_nonempty: "proxy_argv s = Inr (replaced, parts) \<Longrightarrow> parts \<noteq> [] \<and> [] \<notin> set parts"
  using fields_from_nonempty
  by (auto simp: proxy_argv_def Let_def Fields_def split: if_splits)

section \<open>Properties\<close>

lemma fire_timers_due: "t \<in> set (k_timers c) \<Longrightarrow> t \<le> now \<Longrightarrow> k_closed (fire_timers now c)"
  by (auto simp: fire_timers_def Let_def filter_empty_conv)

lemma deadlines_keep_timer:
  "t \<in> set (k_timers c) \<Longrightarrow> t \<in> set (k_timers (foldl conn_step c (map Deadline ts)))"
  by (induction ts arbitrary: c) (auto simp: SetDeadline_def)

text \<open>C15: A deadline cannot be taken back: whatever deadlines are set afterwards, the zero time
  that should clear it included, the connection is closed once the first one has passed.\<close>

theorem deadline_not_cancelled:
  assumes "t \<noteq> zero_time" and "t \<le> now"
  shows "k_closed (foldl conn_step c (Deadline t # map Deadline ts @ [Clock now]))"
proof -
  have "t \<in> set (k_timers (SetDeadline t c))" using assms(1) by (simp add: SetDeadline_def)
  from fire_timers_due [OF deadlines_keep_timer [OF this] assms(2)] show ?thesis by simp
qed

definition sample_conn :: commandConn where
  "sample_conn = \<lparr>k_stdin_open = True, k_stdout_open = True, k_process = Some Running,
     k_remote = (None, 22), k_closed = False, k_timers = []\<rparr>"

theorem deadline_not_cancelled_witness:
  "k_closed (foldl conn_step sample_conn [Deadline 5, Deadline zero_time, Clock 5])"
  using deadline_not_cancelled [of 5 5 sample_conn "[zero_time]"]
  by (simp add: zero_time_def second_def)

text \<open>Over any history of a proxy command connection the closed flag, the two pipe ends and
  the child process move together: open means both pipes open and the child running, closed
  means both pipes closed and the child killed and reaped; and once closed it stays closed.\<close>

theorem conn_history:
  assumes "dialViaProxyCommand E s cfg n = (Inr h, Some c, n1)"
  shows "conn_inv (foldl conn_step c es) \<and>
    (k_closed (foldl conn_step c es) \<longrightarrow> k_closed (foldl conn_step c (es @ fs))) \<and>
    (CloseCall \<in> set es \<longrightarrow> k_process (foldl conn_step c es) = Some Reaped)"
proof -
  have inv: "conn_inv (foldl conn_step c es)"
    by (rule conn_machine.run_inv) (rule dialViaProxyCommand_conn(1) [OF assms])
  moreover have "k_closed (foldl conn_step c (es @ fs))" if "k_closed (foldl conn_step c es)"
    using conn_closed.run_inv [OF that] by simp
  moreover have "k_closed (foldl conn_step c es)" if m: "CloseCall \<in> set es"
  proof -
    obtain as bs where "es = as @ CloseCall # bs" using split_list [OF m] by blast
    then show ?thesis using conn_closed.run_inv [of "Conn_Close (foldl conn_step c as)" bs] by simp
  qed
  ultimately show ?thesis by (auto simp: conn_inv_def)
qed

definition sample_proxy_server :: SSHServer where
  "sample_proxy_server =
     \<lparr>s_Host = ''h'', s_Port = 22, s_Username = ''root'', s_AuthMethod = AuthMethodProxyCommand,
      s_KeyPath = '''', s_Password = ''pw'', s_ProxyCommand = ''ProxyCommand nc %h %p''\<rparr>"

definition sample_config :: ClientConfig where
  "sample_config = \<lparr>cfg_User = ''root'', cfg_Auth = [Password ''pw''],
     cfg_HostKeyCallback = InsecureIgnoreHostKey, cfg_Timeout = 15 * second\<rparr>"

lemma sample_dial:
  "dialViaProxyCommand (sample_env [''h:22'']) sample_proxy_server sample_config 0 =
     (Inr \<lparr>conn_id = 3, conn_present = True\<rparr>, Some (sample_conn\<lparr>k_remote := (None, 22)\<rparr>), 4)"
  by code_simp

theorem conn_history_witness:
  "k_process (foldl conn_step (sample_conn\<lparr>k_remote := (None, 22)\<rparr>) [CloseCall]) = Some Reaped"
  using conn_history [OF sample_dial, of "[CloseCall]" "[]"] by simp

text \<open>C14: A proxy command whose SSH handshake fails leaves nothing behind: once the child has
  been started, the result is either a client over an open connection, or an error with both
  pipes closed and the child killed.\<close>

theorem proxy_handshake_no_leak:
  assumes "dialViaProxyCommand E s cfg n = (res, Some c, n1)"
  shows "conn_inv c \<and>
    (case res of
       Inl e \<Rightarrow> k_closed c \<and> k_process c = Some Reaped \<and> \<not> k_stdin_open c \<and> \<not> k_stdout_open c \<and>
                (\<exists>he. e = Errorf (''proxy ssh handshake failed: '' @ Error he) (Some he))
     | Inr h \<Rightarrow> \<not> k_closed c \<and> k_process c = Some Running \<and> k_stdin_open c \<and> k_stdout_open c)"
  using assms
  by (auto simp: dialViaProxyCommand_def conn_inv_def Conn_Close_def Let_def
      split: sum.splits option.splits)

theorem proxy_handshake_no_leak_witness:
  "conn_inv (sample_conn\<lparr>k_remote := (None, 22)\<rparr>)"
  using proxy_handshake_no_leak [OF sample_dial] by simp

end
