(* ===== verification/SshClient.thy ===== *)
theory SshClient
  imports CommandConn
begin

text \<open>
  The client that wraps one upstream (\<open>internal/sshroundrobin/sshclient.go\<close> and
  \<open>lifecycle.go\<close>). Every method takes the mutex for the fields it touches; the methods that
  change the client are called with the pool's lock held, so each is one step here. A method
  returns its result, the client afterwards and the number of interactions.
\<close>

record SSHClient =
  c_server :: "SSHServer option"
  c_client :: "ssh_conn option"
  c_healthy :: bool
  c_lastErr :: string
  c_selectedCount :: "64 word"
  c_reconnectCount :: "64 word"
  c_healthcheckCount :: "64 word"
  c_lastSelectedAt :: int
  c_lastCheckedAt :: int

record SSHClientStats =
  st_Addr :: string
  st_Mode :: string
  st_Healthy :: bool
  st_SelectedCount :: "64 word"
  st_ReconnectCount :: "64 word"
  st_HealthcheckCount :: "64 word"
  st_LastSelectedAt :: time
  st_LastCheckedAt :: time
  st_LastError :: string

text \<open>
  A nil dereference is a panic, which ends the process. It is a distinguished error value
  here; no client of a pool ever produces it (every one has a server).
\<close>

definition nil_deref :: go_error where
  "nil_deref = Sentinel ''invalid memory address or nil pointer dereference''"

section \<open>Connecting\<close>

definition connect :: "env \<Rightarrow> SSHServer \<Rightarrow> tick \<Rightarrow> (go_error + ssh_conn) \<times> tick" where
  "connect E s n =
     (case Config E s n of
        (Inl e, n1) \<Rightarrow> (Inl e, n1)
      | (Inr cfg, n1) \<Rightarrow>
          if s_AuthMethod s = AuthMethodProxyCommand then
            (case dialViaProxyCommand E s cfg n1 of
               (Inr h, _, n2) \<Rightarrow> (Inr h, n2)
             | (Inl e, _, n2) \<Rightarrow>
                 (case ssh_dial E n2 ''tcp'' (Addr s) cfg of
                    Inl fe \<Rightarrow>
                      (Inl (Errorf (''proxy command failed: '' @ Error e @
                                    ''; direct fallback failed: '' @ Error fe) (Some fe)), Suc n2)
                  | Inr h \<Rightarrow> (Inr h, Suc n2)))
          else (ssh_dial E n1 ''tcp'' (Addr s) cfg, Suc n1))"

definition NewSSHClient :: "env \<Rightarrow> SSHServer \<Rightarrow> tick \<Rightarrow> (go_error + SSHClient) \<times> tick" where
  "NewSSHClient E s n =
     (case connect E s n of
        (Inl e, n1) \<Rightarrow> (Inl e, n1)
      | (Inr h, n1) \<Rightarrow>
          (Inr \<lparr>c_server = Some s, c_client = Some h, c_healthy = True, c_lastErr = '''',
               c_selectedCount = 0, c_reconnectCount = 0, c_healthcheckCount = 0,
               c_lastSelectedAt = 0, c_lastCheckedAt = 0\<rparr>, n1))"

definition NewSSHClientLazy :: "SSHServer option \<Rightarrow> SSHClient" where
  "NewSSHClientLazy s =
     \<lparr>c_server = s, c_client = None, c_healthy = False, c_lastErr = ''lazy: not connected yet'',
      c_selectedCount = 0, c_reconnectCount = 0, c_healthcheckCount = 0,
      c_lastSelectedAt = 0, c_lastCheckedAt = 0\<rparr>"

definition ServerAddr :: "SSHClient \<Rightarrow> string" where
  "ServerAddr c = (case c_server c of None \<Rightarrow> ''unknown'' | Some s \<Rightarrow> Addr s)"

definition ServerMode :: "SSHClient \<Rightarrow> string" where
  "ServerMode c =
     (case c_server c of None \<Rightarrow> ''unknown'' | Some s \<Rightarrow> AuthMethod_String (s_AuthMethod s))"

definition Client :: "SSHClient \<Rightarrow> ssh_conn option" where
  "Client c = c_client c"

definition Dial :: "env \<Rightarrow> string \<Rightarrow> string \<Rightarrow> SSHClient \<Rightarrow> tick \<Rightarrow> (go_error + nat) \<times> tick" where
  "Dial E network addr c n =
     (case c_client c of
        None \<Rightarrow> (Inl (err_new (''ssh client not connected to '' @ ServerAddr c)), n)
      | Some h \<Rightarrow> (conn_dial E n h network addr, Suc n))"

section \<open>Life cycle\<close>

definition MarkSelected :: "env \<Rightarrow> SSHClient \<Rightarrow> tick \<Rightarrow> 64 word \<times> SSHClient \<times> tick" where
  "MarkSelected E c n =
     (let c1 = c\<lparr>c_lastSelectedAt := Unix (time_now E n),
                 c_selectedCount := c_selectedCount c + 1\<rparr>
      in (c_selectedCount c1, c1, Suc n))"

definition SelectionCount :: "SSHClient \<Rightarrow> 64 word" where
  "SelectionCount c = c_selectedCount c"

definition IsConnected :: "SSHClient \<Rightarrow> bool \<times> SSHClient" where
  "IsConnected c =
     (case c_client c of
        None \<Rightarrow> (False, c\<lparr>c_healthy := False\<rparr>)
      | Some h \<Rightarrow> (conn_present h, c))"

definition IsHealthy :: "SSHClient \<Rightarrow> bool" where
  "IsHealthy c = c_healthy c"

definition Client_Close :: "env \<Rightarrow> SSHClient \<Rightarrow> tick \<Rightarrow> go_error option \<times> SSHClient \<times> tick" where
  "Client_Close E c n =
     (let c1 = c\<lparr>c_healthy := False\<rparr> in
      case c_client c of
        None \<Rightarrow> (None, c1, n)
      | Some h \<Rightarrow> (conn_close E n h, c1\<lparr>c_client := None\<rparr>, Suc n))"

definition Reconnect :: "env \<Rightarrow> SSHClient \<Rightarrow> tick \<Rightarrow> go_error option \<times> SSHClient \<times> tick" where
  "Reconnect E c n =
     (let c1 = c\<lparr>c_client := None, c_healthy := False\<rparr>;
          n1 = (case c_client c of None \<Rightarrow> n | Some _ \<Rightarrow> Suc n)
      in case c_server c of
           None \<Rightarrow> (Some nil_deref, c1, n1)
         | Some s \<Rightarrow>
             (case connect E s n1 of
                (Inl e, n2) \<Rightarrow> (Some e, c1\<lparr>c_lastErr := Error e\<rparr>, n2)
              | (Inr h, n2) \<Rightarrow>
                  (None, c1\<lparr>c_client := Some h, c_healthy := True, c_lastErr := '''',
                            c_reconnectCount := c_reconnectCount c + 1\<rparr>, n2)))"

definition EnsureConnected :: "env \<Rightarrow> SSHClient \<Rightarrow> tick \<Rightarrow> go_error option \<times> SSHClient \<times> tick" where
  "EnsureConnected E c n =
     (case IsConnected c of
        (True, c1) \<Rightarrow> (None, c1, n)
      | (False, c1) \<Rightarrow> Reconnect E c1 n)"

definition HealthCheck :: "env \<Rightarrow> SSHClient \<Rightarrow> tick \<Rightarrow> go_error option \<times> SSHClient \<times> tick" where
  "HealthCheck E c n =
     (let c1 = c\<lparr>c_healthcheckCount := c_healthcheckCount c + 1,
                 c_lastCheckedAt := Unix (time_now E n)\<rparr>;
          not_connected =
            (Some (err_new ''ssh client not connected''),
             c1\<lparr>c_healthy := False, c_lastErr := ''ssh client not connected''\<rparr>, Suc n)
      in case c_client c of
           None \<Rightarrow> not_connected
         | Some h \<Rightarrow>
             if \<not> conn_present h then not_connected
             else (case send_keepalive E (Suc n) h of
                     Some e \<Rightarrow>
                       (Some e, c1\<lparr>c_healthy := False, c_lastErr := Error e, c_client := None\<rparr>,
                        n + 3)
                   | None \<Rightarrow> (None, c1\<lparr>c_healthy := True, c_lastErr := ''''\<rparr>, n + 2)))"

definition stamp :: "int \<Rightarrow> time" where
  "stamp ts = (if 0 < ts then ts * second else zero_time)"

definition Stats :: "SSHClient \<Rightarrow> SSHClientStats" where
  "Stats c =
     \<lparr>st_Addr = (case c_server c of None \<Rightarrow> '''' | Some s \<Rightarrow> Addr s),
      st_Mode = (case c_server c of None \<Rightarrow> '''' | Some s \<Rightarrow> AuthMethod_String (s_AuthMethod s)),
      st_Healthy = c_healthy c,
      st_SelectedCount = c_selectedCount c,
      st_ReconnectCount = c_reconnectCount c,
      st_HealthcheckCount = c_healthcheckCount c,
      st_LastSelectedAt = stamp (c_lastSelectedAt c),
      st_LastCheckedAt = stamp (c_lastCheckedAt c),
      st_LastError = c_lastErr c\<rparr>"

section \<open>The invariant of a client\<close>

text \<open>
  A client has a server; it is healthy exactly while it holds a connection; and a connection
  it holds has its \<open>Conn\<close>. Every method keeps it, given the SSH library's contract.
\<close>

definition client_wf :: "SSHClient \<Rightarrow> bool" where
  "client_wf c \<longleftrightarrow>
     c_server c \<noteq> None \<and> (c_healthy c \<longleftrightarrow> c_client c \<noteq> None) \<and>
     (\<forall>h. c_client c = Some h \<longrightarrow> conn_present h)"

definition connected :: "SSHClient \<Rightarrow> bool" where
  "connected c \<longleftrightarrow> (case c_client c of None \<Rightarrow> False | Some h \<Rightarrow> conn_present h)"

lemma client_wf_connected: "client_wf c \<Longrightarrow> connected c \<longleftrightarrow> c_client c \<noteq> None"
  by (auto simp: client_wf_def connected_def)

lemma client_wf_healthy: "client_wf c \<Longrightarrow> c_healthy c \<longleftrightarrow> connected c"
  by (auto simp: client_wf_def connected_def)

lemma connect_present:
  assumes "ssh_library_ok E" and "connect E s n = (Inr h, n1)"
  shows "conn_present h"
  using assms(2) ssh_library_okD [OF assms(1)] dialViaProxyCommand_present [OF assms(1)]
  by (auto simp: connect_def split: prod.splits sum.splits if_splits)

lemma IsConnected_wf [simp]: "client_wf c \<Longrightarrow> IsConnected c = (connected c, c)"
  by (cases c) (auto simp: IsConnected_def client_wf_def connected_def split: option.splits)

lemma IsConnected_result: "fst (IsConnected c) = connected c"
  by (simp add: IsConnected_def connected_def split: option.splits)

lemma IsConnected_client:
  "c_client (snd (IsConnected c)) = c_client c" "c_server (snd (IsConnected c)) = c_server c"
  by (simp_all add: IsConnected_def split: option.splits)

lemma Reconnect_cases:
  assumes "ssh_library_ok E" and "client_wf c" and "Reconnect E c n = (r, c1, n1)"
  shows "client_wf c1" and "c_server c1 = c_server c" and "connected c1 \<longleftrightarrow> r = None"
    and "r = None \<Longrightarrow> c_lastErr c1 = '''' \<and> c_reconnectCount c1 = c_reconnectCount c + 1"
    and "r = Some e \<Longrightarrow> c_lastErr c1 = Error e \<and> c_reconnectCount c1 = c_reconnectCount c"
  using assms(2,3) connect_present [OF assms(1)]
  by (auto simp: Reconnect_def client_wf_def connected_def Let_def
      split: option.splits prod.splits sum.splits)

lemma EnsureConnected_cases:
  assumes "ssh_library_ok E" and "client_wf c" and "EnsureConnected E c n = (r, c1, n1)"
  shows "client_wf c1" and "c_server c1 = c_server c" and "connected c1 \<longleftrightarrow> r = None"
    and "connected c \<Longrightarrow> r = None \<and> c1 = c \<and> n1 = n"
proof -
  have eq: "EnsureConnected E c n = (if connected c then (None, c, n) else Reconnect E c n)"
    using assms(2) by (simp add: EnsureConnected_def split: bool.split)
  show "client_wf c1" and "c_server c1 = c_server c" and "connected c1 \<longleftrightarrow> r = None"
    and "connected c \<Longrightarrow> r = None \<and> c1 = c \<and> n1 = n"
    using assms(2,3) Reconnect_cases(1-3) [OF assms(1,2), of n r c1 n1]
    by (auto simp: eq split: if_splits)
qed

lemma MarkSelected_fields:
  assumes "MarkSelected E c n = (k, c1, n1)"
  shows "c_server c1 = c_server c" "c_client c1 = c_client c" "c_healthy c1 = c_healthy c"
    and "c_selectedCount c1 = c_selectedCount c + 1" "k = c_selectedCount c1" "n1 = Suc n"
  using assms by (auto simp: MarkSelected_def Let_def)

lemma MarkSelected_wf:
  assumes "MarkSelected E c n = (k, c1, n1)"
  shows "client_wf c1 = client_wf c" and "connected c1 = connected c"
  using MarkSelected_fields [OF assms] by (simp_all add: client_wf_def connected_def)

lemma Client_Close_cases:
  assumes "Client_Close E c n = (r, c1, n1)"
  shows "c_server c1 = c_server c" and "\<not> connected c1" and "\<not> c_healthy c1"
    and "c_client c1 = None" and "client_wf c \<Longrightarrow> client_wf c1"
  using assms by (auto simp: Client_Close_def client_wf_def connected_def Let_def split: option.splits)

lemma HealthCheck_cases:
  assumes "client_wf c" and "HealthCheck E c n = (r, c1, n1)"
  shows "client_wf c1" and "c_server c1 = c_server c"
    and "connected c1 \<longleftrightarrow> r = None" and "\<not> connected c \<Longrightarrow> r \<noteq> None"
    and "c_healthcheckCount c1 = c_healthcheckCount c + 1"
  using assms by (auto simp: HealthCheck_def client_wf_def connected_def Let_def
      split: option.splits if_splits dest: sym [of "Some _"])

lemma NewSSHClient_wf:
  assumes "ssh_library_ok E" and "NewSSHClient E s n = (Inr c, n1)"
  shows "client_wf c" and "connected c" and "c_server c = Some s"
  using assms(2) connect_present [OF assms(1)]
  by (auto simp: NewSSHClient_def client_wf_def connected_def split: prod.splits sum.splits)

lemma NewSSHClientLazy_wf:
  "client_wf (NewSSHClientLazy (Some s))" "\<not> connected (NewSSHClientLazy s')"
  "c_server (NewSSHClientLazy s') = s'"
  by (simp_all add: NewSSHClientLazy_def client_wf_def connected_def)

section \<open>Histories of a client\<close>

datatype client_event =
    Selected | AskConnected | Closed | Reconnected | Ensured | Checked

fun client_step :: "env \<Rightarrow> SSHClient \<times> tick \<Rightarrow> client_event \<Rightarrow> SSHClient \<times> tick" where
  "client_step E (c, n) Selected = snd (MarkSelected E c n)"
| "client_step E (c, n) AskConnected = (snd (IsConnected c), n)"
| "client_step E (c, n) Closed = snd (Client_Close E c n)"
| "client_step E (c, n) Reconnected = snd (Reconnect E c n)"
| "client_step E (c, n) Ensured = snd (EnsureConnected E c n)"
| "client_step E (c, n) Checked = snd (HealthCheck E c n)"

definition client_ok :: "env \<Rightarrow> SSHServer \<Rightarrow> SSHClient \<times> tick \<Rightarrow> bool" where
  "client_ok E s p \<longleftrightarrow> ssh_library_ok E \<and> client_wf (fst p) \<and> c_server (fst p) = Some s"

lemma client_step_ok:
  assumes "client_ok E s p"
  shows "client_ok E s (client_step E p e)"
proof (cases p)
  case (Pair c n)
  then have ok: "ssh_library_ok E" "client_wf c" "c_server c = Some s"
    using assms by (simp_all add: client_ok_def)
  note c = MarkSelected_wf(1) [OF triple [of "MarkSelected E c n"]]
    MarkSelected_fields(1) [OF triple [of "MarkSelected E c n"]]
    Client_Close_cases(1,5) [OF triple [of "Client_Close E c n"]]
    Reconnect_cases(1,2) [OF ok(1,2) triple [of "Reconnect E c n"]]
    EnsureConnected_cases(1,2) [OF ok(1,2) triple [of "EnsureConnected E c n"]]
    HealthCheck_cases(1,2) [OF ok(2) triple [of "HealthCheck E c n"]]
  show ?thesis using Pair ok c by (cases e) (simp_all add: client_ok_def)
qed

interpretation client_machine: machine "client_step E" "client_ok E s" for E s
  by unfold_locales (rule client_step_ok)

section \<open>Properties\<close>

text \<open>Whatever is done to a client, it is reported healthy exactly when it is connected, and it
  keeps its server: the flag shown in the statistics is the answer of \<open>IsConnected\<close>.\<close>

theorem client_healthy_iff_connected:
  assumes "ssh_library_ok E"
    and "c = NewSSHClientLazy (Some s) \<or> NewSSHClient E s m = (Inr c, n)"
    and "foldl (client_step E) (c, n) es = (c', n')"
  shows "st_Healthy (Stats c') = fst (IsConnected c') \<and> snd (IsConnected c') = c' \<and>
    st_Addr (Stats c') = Addr s \<and> ServerAddr c' = Addr s"
proof -
  have "client_ok E s (c, n)"
    using assms(1,2) NewSSHClientLazy_wf(1) [of s] NewSSHClientLazy_wf(3) [of "Some s"]
      NewSSHClient_wf [OF assms(1), of s m c n] by (auto simp: client_ok_def)
  from client_machine.run_inv [OF this, of es] assms(3)
  have "client_wf c'" "c_server c' = Some s" by (simp_all add: client_ok_def)
  then show ?thesis by (simp add: Stats_def ServerAddr_def client_wf_healthy)
qed

theorem client_healthy_iff_connected_witness:
  "st_Addr (Stats (fst (foldl (client_step (sample_env [])) (NewSSHClientLazy (Some sample_proxy_server), 0)
     [Ensured, Selected, Checked]))) = Addr sample_proxy_server"
  using client_healthy_iff_connected [OF sample_env_ok, of "NewSSHClientLazy (Some sample_proxy_server)"
      sample_proxy_server "[]" 0 0 "[Ensured, Selected, Checked]", OF _ prod.collapse [symmetric]]
  by simp

text \<open>\<open>EnsureConnected\<close> leaves a connected client alone; otherwise the client is connected
  afterwards exactly when no error is returned, with its error text cleared and the reconnect
  counted, and on an error it shows the error's text and stays unhealthy.\<close>

theorem EnsureConnected_result:
  assumes "ssh_library_ok E" and "client_wf c" and "EnsureConnected E c n = (r, c', n')"
  shows "if connected c then r = None \<and> c' = c \<and> n' = n
    else (case r of
       None \<Rightarrow> connected c' \<and> c_healthy c' \<and> c_lastErr c' = '''' \<and>
               c_reconnectCount c' = c_reconnectCount c + 1
     | Some e \<Rightarrow> \<not> connected c' \<and> \<not> c_healthy c' \<and> c_lastErr c' = Error e \<and>
               c_reconnectCount c' = c_reconnectCount c)"
proof (cases "connected c")
  case True
  then show ?thesis using EnsureConnected_cases(4) [OF assms] by simp
next
  case False
  then have r: "Reconnect E c n = (r, c', n')"
    using assms(2,3) by (simp add: EnsureConnected_def)
  note c = Reconnect_cases [OF assms(1,2) r]
  then show ?thesis using False client_wf_healthy [OF c(1)] by (auto split: option.split)
qed

lemma lazy_refused:
  "fst (EnsureConnected (sample_env []) (NewSSHClientLazy (Some sample_proxy_server)) 0) \<noteq> None"
  by code_simp

theorem EnsureConnected_result_witness:
  "\<not> c_healthy (fst (snd (EnsureConnected (sample_env []) (NewSSHClientLazy (Some sample_proxy_server)) 0)))"
  using EnsureConnected_result [OF sample_env_ok NewSSHClientLazy_wf(1) triple,
      of sample_proxy_server "[]" 0] lazy_refused
  by (auto simp: NewSSHClientLazy_wf(2) split: option.splits)

text \<open>With a proxy command a connection is refused only after both ways were tried: the error
  names the failure of the command and the failure of the direct dial, and wraps the latter.\<close>

theorem connect_proxy_fallback:
  assumes "s_AuthMethod s = AuthMethodProxyCommand" and "Config E s n = (Inr cfg, n1)"
    and "connect E s n = (Inl e, n3)"
  shows "\<exists>pe c n2 fe. dialViaProxyCommand E s cfg n1 = (Inl pe, c, n2) \<and>
    ssh_dial E n2 ''tcp'' (Addr s) cfg = Inl fe \<and> n3 = Suc n2 \<and>
    Error e = ''proxy command failed: '' @ Error pe @ ''; direct fallback failed: '' @ Error fe \<and>
    errors_Is e fe"
  using assms by (auto simp: connect_def split: prod.splits sum.splits)

lemma sample_proxy_config: "Config (sample_env []) sample_proxy_server 0 = (Inr sample_config, 0)"
  by code_simp

lemma sample_connect: "\<exists>e. connect (sample_env []) sample_proxy_server 0 = (Inl e, 5)"
  by (intro exI) code_simp

theorem connect_proxy_fallback_witness:
  "\<exists>pe c n2. dialViaProxyCommand (sample_env []) sample_proxy_server sample_config 0 = (Inl pe, c, n2)"
  using connect_proxy_fallback [OF _ sample_proxy_config] sample_connect
  by (force simp: sample_proxy_server_def)

end
