(* ===== verification/Pool.thy ===== *)
theory Pool
  imports SshClient
begin

text \<open>
  The upstream pool: its state, the operations of \<open>internal/sshroundrobin/roundrobin.go\<close> that
  do not select, and the table of failed targets of \<open>targetfailure.go\<close>. Every operation
  here runs under the pool's lock \<open>rr.mu\<close>, so each is one atomic step. Clients are shared by
  pointer: the pool lists references, the clients live in the store of the \<open>world\<close>.
\<close>

section \<open>State\<close>

type_synonym client_ref = nat

text \<open>
  \<open>OnConnectionError\<close> is a closure over state of the application; \<open>'t\<close> is that state.
\<close>

type_synonym 't callback = "string \<Rightarrow> go_error \<Rightarrow> tick \<Rightarrow> 't \<Rightarrow> tick \<times> 't"

record 't world =
  w_tick :: tick
  w_store :: "client_ref \<Rightarrow> SSHClient"
  w_cb :: 't

record targetFailureState =
  tf_FailCount :: int
  tf_BlockedUntil :: time
  tf_LastError :: string

record 't RoundRobin =
  rr_servers :: "client_ref list"
  rr_index :: "32 word"
  rr_strategy :: string
  rr_maxActive :: int
  rr_activeIdx :: int
  rr_hasActive :: bool
  rr_targetFailures :: "string \<rightharpoonup> targetFailureState"
  rr_OnConnectionError :: "'t callback option"

record UpstreamStat =
  us_Addr :: string
  us_Mode :: string
  us_Healthy :: bool
  us_Active :: bool
  us_SelectedCount :: "64 word"
  us_ReconnectCount :: "64 word"
  us_HealthcheckCount :: "64 word"
  us_LastSelectedAt :: time
  us_LastCheckedAt :: time
  us_LastError :: string

record HealthCheckReport =
  hr_Checked :: int
  hr_Recovered :: "string list"
  hr_Failed :: "string list"
  hr_SwitchedFrom :: string
  hr_SwitchedTo :: string

definition StrategyLoadBalance :: string where "StrategyLoadBalance = ''loadbalance''"
definition StrategyFailover :: string where "StrategyFailover = ''failover''"

lemma strategies_differ [simp]:
  "StrategyLoadBalance \<noteq> StrategyFailover" "StrategyFailover \<noteq> StrategyLoadBalance"
  by (simp_all add: StrategyLoadBalance_def StrategyFailover_def)

section \<open>Client methods on the store\<close>

definition at_client ::
    "client_ref \<Rightarrow> (SSHClient \<Rightarrow> tick \<Rightarrow> 'r \<times> SSHClient \<times> tick) \<Rightarrow> 't world \<Rightarrow> 'r \<times> 't world" where
  "at_client r f w =
     (case f (w_store w r) (w_tick w) of
        (x, c, n) \<Rightarrow> (x, w\<lparr>w_store := (w_store w)(r := c), w_tick := n\<rparr>))"

definition IsConnected_at :: "client_ref \<Rightarrow> 't world \<Rightarrow> bool \<times> 't world" where
  "IsConnected_at r = at_client r (\<lambda>c n. case IsConnected c of (b, c1) \<Rightarrow> (b, c1, n))"

definition EnsureConnected_at :: "env \<Rightarrow> client_ref \<Rightarrow> 't world \<Rightarrow> go_error option \<times> 't world" where
  "EnsureConnected_at E r = at_client r (EnsureConnected E)"

definition MarkSelected_at :: "env \<Rightarrow> client_ref \<Rightarrow> 't world \<Rightarrow> 64 word \<times> 't world" where
  "MarkSelected_at E r = at_client r (MarkSelected E)"

definition HealthCheck_at :: "env \<Rightarrow> client_ref \<Rightarrow> 't world \<Rightarrow> go_error option \<times> 't world" where
  "HealthCheck_at E r = at_client r (HealthCheck E)"

definition Close_at :: "env \<Rightarrow> client_ref \<Rightarrow> 't world \<Rightarrow> go_error option \<times> 't world" where
  "Close_at E r = at_client r (Client_Close E)"

definition addr_of :: "'t world \<Rightarrow> client_ref \<Rightarrow> string" where
  "addr_of w r = ServerAddr (w_store w r)"

text \<open>\<open>time.Now()\<close> is one interaction.\<close>

definition now_at :: "env \<Rightarrow> 't world \<Rightarrow> time \<times> 't world" where
  "now_at E w = (time_now E (w_tick w), w\<lparr>w_tick := Suc (w_tick w)\<rparr>)"

section \<open>Operations of roundrobin.go\<close>

definition normalizeStrategy :: "string \<Rightarrow> string" where
  "normalizeStrategy strategy =
     (let k = ToLower (TrimSpace strategy) in
      if k = '''' then StrategyFailover
      else if k = StrategyLoadBalance then StrategyLoadBalance
      else if k = StrategyFailover then StrategyFailover
      else StrategyFailover)"

definition NewRoundRobin :: "string \<Rightarrow> int \<Rightarrow> 't RoundRobin" where
  "NewRoundRobin strategy maxActive =
     \<lparr>rr_servers = [], rr_index = 0, rr_strategy = normalizeStrategy strategy,
      rr_maxActive = (if maxActive \<le> 0 then 1 else maxActive),
      rr_activeIdx = 0, rr_hasActive = False, rr_targetFailures = (\<lambda>_. None),
      rr_OnConnectionError = None\<rparr>"

definition notifyConnectionError ::
    "'t RoundRobin \<Rightarrow> string \<Rightarrow> go_error \<Rightarrow> 't world \<Rightarrow> 't world" where
  "notifyConnectionError rr addr e w =
     (case rr_OnConnectionError rr of
        None \<Rightarrow> w
      | Some f \<Rightarrow> (case f addr e (w_tick w) (w_cb w) of (n, t) \<Rightarrow> w\<lparr>w_tick := n, w_cb := t\<rparr>))"

fun count_connected :: "client_ref list \<Rightarrow> int \<Rightarrow> 't world \<Rightarrow> int \<times> 't world" where
  "count_connected [] count w = (count, w)"
| "count_connected (r # rs) count w =
     (case IsConnected_at r w of
        (b, w1) \<Rightarrow> count_connected rs (if b then count + 1 else count) w1)"

definition connectedCountLocked :: "'t RoundRobin \<Rightarrow> 't world \<Rightarrow> int \<times> 't world" where
  "connectedCountLocked rr w = count_connected (rr_servers rr) 0 w"

definition Add :: "client_ref \<Rightarrow> 't RoundRobin \<Rightarrow> 't RoundRobin" where
  "Add r rr = rr\<lparr>rr_servers := rr_servers rr @ [r]\<rparr>"

text \<open>The index of the first occurrence of a pointer, the \<open>range\<close> loop of \<open>Remove\<close>.\<close>

fun index_of :: "'a \<Rightarrow> 'a list \<Rightarrow> nat option" where
  "index_of x [] = None"
| "index_of x (y # ys) = (if y = x then Some 0 else map_option Suc (index_of x ys))"

definition Remove :: "env \<Rightarrow> client_ref \<Rightarrow> 't RoundRobin \<Rightarrow> 't world \<Rightarrow> 't RoundRobin \<times> 't world" where
  "Remove E r rr w =
     (case index_of r (rr_servers rr) of
        None \<Rightarrow> (rr, w)
      | Some i \<Rightarrow>
          (let w1 = snd (Close_at E r w);
               rest = take i (rr_servers rr) @ drop (Suc i) (rr_servers rr);
               rr1 = rr\<lparr>rr_servers := rest\<rparr>
           in if rest = [] then (rr1\<lparr>rr_hasActive := False, rr_activeIdx := 0\<rparr>, w1)
              else if rr_hasActive rr then
                if int i = rr_activeIdx rr then (rr1\<lparr>rr_hasActive := False, rr_activeIdx := 0\<rparr>, w1)
                else if int i < rr_activeIdx rr then
                  (rr1\<lparr>rr_activeIdx := rr_activeIdx rr - 1\<rparr>, w1)
                else (rr1, w1)
              else (rr1, w1)))"

fun close_list :: "env \<Rightarrow> client_ref list \<Rightarrow> 't world \<Rightarrow> 't world" where
  "close_list E [] w = w"
| "close_list E (r # rs) w = close_list E rs (snd (Close_at E r w))"

definition CloseAll :: "env \<Rightarrow> 't RoundRobin \<Rightarrow> 't world \<Rightarrow> 't RoundRobin \<times> 't world" where
  "CloseAll E rr w =
     (rr\<lparr>rr_servers := [], rr_hasActive := False, rr_activeIdx := 0\<rparr>,
      close_list E (rr_servers rr) w)"

definition Len :: "'t RoundRobin \<Rightarrow> int" where
  "Len rr = int (length (rr_servers rr))"

section \<open>Failed targets\<close>

definition targetFailureKey :: "string \<Rightarrow> string \<Rightarrow> string" where
  "targetFailureKey upstreamAddr targetAddr = upstreamAddr @ ''|'' @ targetAddr"

definition isTargetBlockedLocked ::
    "SSHClient option \<Rightarrow> string \<Rightarrow> time \<Rightarrow> 't RoundRobin \<Rightarrow> bool \<times> 't RoundRobin" where
  "isTargetBlockedLocked client targetAddr now rr =
     (case client of
        None \<Rightarrow> (False, rr)
      | Some c \<Rightarrow>
          if targetAddr = '''' then (False, rr)
          else
            (let key = targetFailureKey (ServerAddr c) targetAddr in
             case rr_targetFailures rr key of
               None \<Rightarrow> (False, rr)
             | Some state \<Rightarrow>
                 if now < tf_BlockedUntil state then (True, rr)
                 else (False, rr\<lparr>rr_targetFailures := (rr_targetFailures rr)(key := None)\<rparr>)))"

definition ReportTargetFailure ::
    "env \<Rightarrow> client_ref option \<Rightarrow> string \<Rightarrow> int \<Rightarrow> duration \<Rightarrow> go_error option \<Rightarrow>
     't RoundRobin \<Rightarrow> 't world \<Rightarrow> 't RoundRobin \<times> 't world" where
  "ReportTargetFailure E client targetAddr threshold ttl err rr w =
     (case client of
        None \<Rightarrow> (rr, w)
      | Some r \<Rightarrow>
          if targetAddr = '''' then (rr, w)
          else
            (let threshold1 = (if threshold \<le> 0 then 1 else threshold);
                 ttl1 = (if ttl \<le> 0 then 10 * minute else ttl);
                 key = targetFailureKey (addr_of w r) targetAddr;
                 state0 = (case rr_targetFailures rr key of
                             Some s \<Rightarrow> s
                           | None \<Rightarrow> \<lparr>tf_FailCount = 0, tf_BlockedUntil = zero_time,
                                      tf_LastError = ''''\<rparr>);
                 state1 = state0\<lparr>tf_FailCount := go_int (tf_FailCount state0 + 1)\<rparr>;
                 state2 = (case err of None \<Rightarrow> state1
                           | Some e \<Rightarrow> state1\<lparr>tf_LastError := Error e\<rparr>)
             in if threshold1 \<le> tf_FailCount state2 then
                  (case now_at E w of
                     (now, w1) \<Rightarrow>
                       (rr\<lparr>rr_targetFailures := (rr_targetFailures rr)
                             (key \<mapsto> state2\<lparr>tf_BlockedUntil := now + ttl1\<rparr>)\<rparr>, w1))
                else (rr\<lparr>rr_targetFailures := (rr_targetFailures rr)(key \<mapsto> state2)\<rparr>, w)))"

definition ReportTargetSuccess ::
    "client_ref option \<Rightarrow> string \<Rightarrow> 't RoundRobin \<Rightarrow> 't world \<Rightarrow> 't RoundRobin" where
  "ReportTargetSuccess client targetAddr rr w =
     (case client of
        None \<Rightarrow> rr
      | Some r \<Rightarrow>
          if targetAddr = '''' then rr
          else rr\<lparr>rr_targetFailures :=
                    (rr_targetFailures rr)(targetFailureKey (addr_of w r) targetAddr := None)\<rparr>)"

definition CleanupExpiredTargets ::
    "env \<Rightarrow> 't RoundRobin \<Rightarrow> 't world \<Rightarrow> 't RoundRobin \<times> 't world" where
  "CleanupExpiredTargets E rr w =
     (case now_at E w of
        (now, w1) \<Rightarrow>
          (rr\<lparr>rr_targetFailures := (\<lambda>key.
                case rr_targetFailures rr key of
                  None \<Rightarrow> None
                | Some state \<Rightarrow> if tf_BlockedUntil state < now then None else Some state)\<rparr>, w1))"

section \<open>How worlds evolve\<close>

text \<open>
  \<open>evolves S w w'\<close>: from \<open>w\<close> to \<open>w'\<close> only clients in \<open>S\<close> were touched, no client changed its
  server (so no address changed), and well-formed clients stayed so.
\<close>

definition evolves :: "client_ref set \<Rightarrow> 't world \<Rightarrow> 't world \<Rightarrow> bool" where
  "evolves S w w' \<longleftrightarrow>
     (\<forall>q. q \<notin> S \<longrightarrow> w_store w' q = w_store w q) \<and>
     (\<forall>q. c_server (w_store w' q) = c_server (w_store w q)) \<and>
     (\<forall>q. client_wf (w_store w q) \<longrightarrow> client_wf (w_store w' q))"

lemma evolves_refl [simp, intro]: "evolves S w w"
  by (simp add: evolves_def)

lemma evolves_trans [trans]: "evolves S w1 w2 \<Longrightarrow> evolves S w2 w3 \<Longrightarrow> evolves S w1 w3"
  by (simp add: evolves_def)

lemma evolves_mono: "evolves S w w' \<Longrightarrow> S \<subseteq> T \<Longrightarrow> evolves T w w'"
  by (auto simp: evolves_def)

lemma evolves_addr [pool_frame]: "evolves S w w' \<Longrightarrow> addr_of w' q = addr_of w q"
  by (simp add: evolves_def addr_of_def ServerAddr_def)

lemma evolves_wf: "evolves S w w' \<Longrightarrow> client_wf (w_store w q) \<Longrightarrow> client_wf (w_store w' q)"
  by (simp add: evolves_def)

lemma evolves_same_store: "w_store w' = w_store w \<Longrightarrow> evolves S w w'"
  by (simp add: evolves_def)

definition up :: "'t world \<Rightarrow> client_ref \<Rightarrow> bool" where
  "up w r \<longleftrightarrow> connected (w_store w r)"

lemma up_store [simp]: "up (w\<lparr>w_tick := n\<rparr>) r = up w r" "up (w\<lparr>w_cb := t\<rparr>) r = up w r"
  by (simp_all add: up_def)

lemma at_clientE:
  assumes "at_client r f w = (x, w')"
  obtains c n where "f (w_store w r) (w_tick w) = (x, c, n)"
    and "w' = w\<lparr>w_store := (w_store w)(r := c), w_tick := n\<rparr>"
  using assms by (auto simp: at_client_def split: prod.splits)

lemma IsConnected_at_wf [simp]:
  "client_wf (w_store w r) \<Longrightarrow> IsConnected_at r w = (up w r, w)"
  by (simp add: IsConnected_at_def at_client_def up_def)

lemma EnsureConnected_at_cases:
  assumes "ssh_library_ok E" and "client_wf (w_store w r)" and "EnsureConnected_at E r w = (x, w')"
  shows "evolves {r} w w'" and "up w' q \<longleftrightarrow> (if q = r then x = None else up w q)"
    and "w_cb w' = w_cb w" and "up w r \<Longrightarrow> x = None \<and> w' = w"
proof -
  obtain c n where f: "EnsureConnected E (w_store w r) (w_tick w) = (x, c, n)"
    and w': "w' = w\<lparr>w_store := (w_store w)(r := c), w_tick := n\<rparr>"
    using assms(3) unfolding EnsureConnected_at_def by (rule at_clientE)
  note facts = EnsureConnected_cases [OF assms(1,2) f]
  show "evolves {r} w w'" using facts(1,2) by (simp add: evolves_def w')
  show "up w' q \<longleftrightarrow> (if q = r then x = None else up w q)"
    using facts(3) by (simp add: up_def w')
  show "w_cb w' = w_cb w" by (simp add: w')
  show "up w r \<Longrightarrow> x = None \<and> w' = w" using facts(4) by (simp add: up_def w')
qed

lemma MarkSelected_at_cases:
  assumes "MarkSelected_at E r w = (k, w')"
  shows "evolves {r} w w'" and "up w' q \<longleftrightarrow> up w q" and "w_cb w' = w_cb w"
    and "c_selectedCount (w_store w' q) = c_selectedCount (w_store w q) + (if q = r then 1 else 0)"
proof -
  obtain c n where f: "MarkSelected E (w_store w r) (w_tick w) = (k, c, n)"
    and w': "w' = w\<lparr>w_store := (w_store w)(r := c), w_tick := n\<rparr>"
    using assms unfolding MarkSelected_at_def by (rule at_clientE)
  note facts = MarkSelected_fields [OF f] MarkSelected_wf [OF f]
  show "evolves {r} w w'" using facts by (simp add: evolves_def w')
  show "up w' q \<longleftrightarrow> up w q" using facts by (simp add: up_def w')
  show "w_cb w' = w_cb w" by (simp add: w')
  show "c_selectedCount (w_store w' q) = c_selectedCount (w_store w q) + (if q = r then 1 else 0)"
    using facts by (simp add: w')
qed

lemma MarkSelected_at_simps [simp]:
  "up (snd (MarkSelected_at E r w)) q \<longleftrightarrow> up w q"
  "w_cb (snd (MarkSelected_at E r w)) = w_cb w"
  using MarkSelected_at_cases(2,3) [OF prod.collapse [symmetric]] by blast+

lemma MarkSelected_at_evolves [intro]:
  "evolves {r} w w1 \<Longrightarrow> evolves {r} w (snd (MarkSelected_at E r w1))"
  using MarkSelected_at_cases(1) [OF prod.collapse [symmetric]] by (blast intro: evolves_trans)

lemma HealthCheck_at_cases:
  assumes "client_wf (w_store w r)" and "HealthCheck_at E r w = (x, w')"
  shows "evolves {r} w w'" and "up w' q \<longleftrightarrow> (if q = r then x = None else up w q)"
    and "\<not> up w r \<Longrightarrow> x \<noteq> None" and "w_cb w' = w_cb w"
proof -
  obtain c n where f: "HealthCheck E (w_store w r) (w_tick w) = (x, c, n)"
    and w': "w' = w\<lparr>w_store := (w_store w)(r := c), w_tick := n\<rparr>"
    using assms(2) unfolding HealthCheck_at_def by (rule at_clientE)
  note facts = HealthCheck_cases [OF assms(1) f]
  show "evolves {r} w w'" using facts(1,2) by (simp add: evolves_def w')
  show "up w' q \<longleftrightarrow> (if q = r then x = None else up w q)" using facts(3) by (simp add: up_def w')
  show "\<not> up w r \<Longrightarrow> x \<noteq> None" using facts(4) by (simp add: up_def)
  show "w_cb w' = w_cb w" by (simp add: w')
qed

lemma Close_at_cases:
  assumes "Close_at E r w = (x, w')"
  shows "evolves {r} w w'" and "up w' q \<longleftrightarrow> q \<noteq> r \<and> up w q" and "w_cb w' = w_cb w"
proof -
  obtain c n where f: "Client_Close E (w_store w r) (w_tick w) = (x, c, n)"
    and w': "w' = w\<lparr>w_store := (w_store w)(r := c), w_tick := n\<rparr>"
    using assms unfolding Close_at_def by (rule at_clientE)
  note facts = Client_Close_cases [OF f]
  show "evolves {r} w w'" using facts(1,5) by (simp add: evolves_def w')
  show "up w' q \<longleftrightarrow> q \<noteq> r \<and> up w q" using facts(2) by (simp add: up_def w')
  show "w_cb w' = w_cb w" by (simp add: w')
qed

lemma notifyConnectionError_store [simp]:
  "w_store (notifyConnectionError rr a e w) = w_store w"
  by (simp add: notifyConnectionError_def split: option.split prod.split)

lemma notifyConnectionError_up [simp]: "up (notifyConnectionError rr a e w) r = up w r"
  by (simp add: up_def)

lemma notifyConnectionError_evolves [simp]:
  "evolves S w (notifyConnectionError rr a e w') \<longleftrightarrow> evolves S w w'"
  by (simp add: evolves_def)

lemma now_at_simps [simp]:
  "w_store (snd (now_at E w)) = w_store w" "w_cb (snd (now_at E w)) = w_cb w"
  "up (snd (now_at E w)) r = up w r" "evolves S w (snd (now_at E w))"
  by (simp_all add: now_at_def up_def evolves_def)

section \<open>Well-formed pools\<close>

text \<open>
  The active index is meaningful exactly in failover mode with an active server; every
  listed client is well formed.
\<close>

definition cursor_wf :: "'t RoundRobin \<Rightarrow> bool" where
  "cursor_wf rr \<longleftrightarrow>
     1 \<le> rr_maxActive rr \<and> rr_strategy rr \<in> {StrategyFailover, StrategyLoadBalance} \<and>
     (if rr_hasActive rr
      then rr_strategy rr = StrategyFailover \<and>
           0 \<le> rr_activeIdx rr \<and> rr_activeIdx rr < int (length (rr_servers rr))
      else rr_activeIdx rr = 0)"

definition servers_wf :: "'t RoundRobin \<Rightarrow> 't world \<Rightarrow> bool" where
  "servers_wf rr w \<longleftrightarrow> (\<forall>r \<in> set (rr_servers rr). client_wf (w_store w r))"

definition pool_wf :: "'t RoundRobin \<Rightarrow> 't world \<Rightarrow> bool" where
  "pool_wf rr w \<longleftrightarrow> cursor_wf rr \<and> servers_wf rr w"

lemma servers_wf_evolves:
  "servers_wf rr w \<Longrightarrow> evolves S w w' \<Longrightarrow> set (rr_servers rr') \<subseteq> set (rr_servers rr) \<Longrightarrow>
   servers_wf rr' w'"
  by (auto simp: servers_wf_def dest: evolves_wf)

lemma servers_wfD: "servers_wf rr w \<Longrightarrow> r \<in> set (rr_servers rr) \<Longrightarrow> client_wf (w_store w r)"
  by (simp add: servers_wf_def)

lemma normalizeStrategy_range:
  "normalizeStrategy s = StrategyFailover \<or> normalizeStrategy s = StrategyLoadBalance"
  by (auto simp: normalizeStrategy_def Let_def)

lemma NewRoundRobin_wf [pool_inv]: "pool_wf (NewRoundRobin s k) w"
  using normalizeStrategy_range [of s]
  by (auto simp: pool_wf_def cursor_wf_def servers_wf_def NewRoundRobin_def)

lemma Add_wf [pool_inv]:
  "pool_wf rr w \<Longrightarrow> client_wf (w_store w r) \<Longrightarrow> pool_wf (Add r rr) w"
  by (auto simp: pool_wf_def cursor_wf_def servers_wf_def Add_def split: if_splits)

lemma count_connected_wf:
  "\<forall>r \<in> set rs. client_wf (w_store w r) \<Longrightarrow>
   count_connected rs k w = (k + int (length (filter (up w) rs)), w)"
  by (induction rs arbitrary: k) auto

lemma connectedCountLocked_wf:
  "servers_wf rr w \<Longrightarrow>
   connectedCountLocked rr w = (int (length (filter (up w) (rr_servers rr))), w)"
  by (simp add: connectedCountLocked_def count_connected_wf servers_wf_def)

lemma index_of_Some:
  "index_of x xs = Some i \<Longrightarrow> i < length xs \<and> xs ! i = x \<and> (\<forall>j < i. xs ! j \<noteq> x)"
proof (induction xs arbitrary: i)
  case (Cons y ys)
  then show ?case
    by (cases i) (auto split: if_splits simp: less_Suc_eq_0_disj nth_Cons')
qed simp

lemma index_of_None: "index_of x xs = None \<longleftrightarrow> x \<notin> set xs"
  by (induction xs) auto

lemma index_of_remove1:
  "index_of x xs = Some i \<Longrightarrow> take i xs @ drop (Suc i) xs = remove1 x xs"
proof (induction xs arbitrary: i)
  case (Cons y ys)
  then show ?case by (cases i) (auto split: if_splits)
qed simp

lemma close_list_evolves: "evolves (set rs) w (close_list E rs w)"
proof (induction rs arbitrary: w)
  case (Cons r rs)
  have "evolves {r} w (snd (Close_at E r w))"
    by (rule Close_at_cases(1)) (rule prod.collapse [symmetric])
  then have "evolves (set (r # rs)) w (snd (Close_at E r w))"
    by (rule evolves_mono) simp
  also have "evolves (set (r # rs)) (snd (Close_at E r w)) (close_list E (r # rs) w)"
    using evolves_mono [OF Cons] by simp (blast intro: evolves_mono Cons)
  finally show ?case .
qed simp

lemma close_list_up: "up (close_list E rs w) q \<longleftrightarrow> q \<notin> set rs \<and> up w q"
proof (induction rs arbitrary: w)
  case (Cons r rs)
  have "up (snd (Close_at E r w)) q \<longleftrightarrow> q \<noteq> r \<and> up w q"
    by (rule Close_at_cases(2)) (rule prod.collapse [symmetric])
  with Cons show ?case by auto
qed simp

lemma Remove_wf [pool_inv]:
  assumes "pool_wf rr w" and "Remove E r rr w = (rr', w')"
  shows "pool_wf rr' w'"
proof (cases "index_of r (rr_servers rr)")
  case None
  with assms show ?thesis by (simp add: Remove_def)
next
  case (Some i)
  let ?w1 = "snd (Close_at E r w)"
  let ?rest = "take i (rr_servers rr) @ drop (Suc i) (rr_servers rr)"
  have i: "i < length (rr_servers rr)" using index_of_Some [OF Some] by blast
  have w': "w' = ?w1" and srv: "rr_servers rr' = ?rest"
    using assms(2) Some by (auto simp: Remove_def Let_def split: if_splits)
  have "evolves {r} w ?w1" by (rule Close_at_cases(1)) (rule prod.collapse [symmetric])
  moreover have "set ?rest \<subseteq> set (rr_servers rr)"
    by (auto dest: in_set_takeD in_set_dropD)
  ultimately have "servers_wf rr' w'"
    using assms(1) servers_wf_evolves [of rr w "{r}" ?w1 rr'] by (simp add: pool_wf_def w' srv)
  moreover have "length ?rest = length (rr_servers rr) - 1" using i by simp
  then have "cursor_wf rr'"
    using assms Some i by (auto simp: Remove_def Let_def cursor_wf_def pool_wf_def split: if_splits)
  ultimately show ?thesis by (simp add: pool_wf_def)
qed

lemma CloseAll_wf [pool_inv]: "pool_wf rr w \<Longrightarrow> CloseAll E rr w = (rr', w') \<Longrightarrow> pool_wf rr' w'"
  by (auto simp: CloseAll_def pool_wf_def cursor_wf_def servers_wf_def)

section \<open>The table of failed targets\<close>

text \<open>\<open>blocked_at\<close> is what \<open>isTargetBlockedLocked\<close> answers, without its deletions.\<close>

definition blocked_at :: "'t RoundRobin \<Rightarrow> string \<Rightarrow> string \<Rightarrow> time \<Rightarrow> bool" where
  "blocked_at rr addr target now \<longleftrightarrow>
     target \<noteq> '''' \<and>
     (case rr_targetFailures rr (targetFailureKey addr target) of
        None \<Rightarrow> False | Some s \<Rightarrow> now < tf_BlockedUntil s)"

text \<open>\<open>pruned now m m'\<close>: \<open>m'\<close> is \<open>m\<close> without some records that block nothing at \<open>now\<close>.\<close>

definition pruned ::
    "time \<Rightarrow> (string \<rightharpoonup> targetFailureState) \<Rightarrow> (string \<rightharpoonup> targetFailureState) \<Rightarrow> bool" where
  "pruned now m m' \<longleftrightarrow>
     (\<forall>k. m' k = m k \<or> (m' k = None \<and> (\<exists>s. m k = Some s \<and> tf_BlockedUntil s \<le> now)))"

lemma pruned_refl [simp]: "pruned now m m"
  by (simp add: pruned_def)

lemma pruned_trans: "pruned now m1 m2 \<Longrightarrow> pruned now m2 m3 \<Longrightarrow> pruned now m1 m3"
  unfolding pruned_def by (metis option.distinct(1))

lemma pruned_None: "pruned now m m' \<Longrightarrow> m k = None \<Longrightarrow> m' k = None"
  unfolding pruned_def by (metis option.distinct(1))

lemma pruned_blocked:
  "pruned now (rr_targetFailures rr) (rr_targetFailures rr') \<Longrightarrow>
   blocked_at rr' addr target now \<longleftrightarrow> blocked_at rr addr target now"
  unfolding pruned_def blocked_at_def
  by (drule spec [where x = "targetFailureKey addr target"]) (auto split: option.splits)

lemma isTargetBlockedLocked_cases:
  assumes "isTargetBlockedLocked (Some c) target now rr = (b, rr')"
  shows "b = blocked_at rr (ServerAddr c) target now"
    and "rr' = rr\<lparr>rr_targetFailures := rr_targetFailures rr'\<rparr>"
    and "pruned now (rr_targetFailures rr) (rr_targetFailures rr')"
    and "\<not> b \<Longrightarrow> target = '''' \<or>
           rr_targetFailures rr' (targetFailureKey (ServerAddr c) target) = None"
  using assms
  by (auto simp: isTargetBlockedLocked_def blocked_at_def pruned_def Let_def
      split: option.splits if_splits)

lemma table_update_wf [pool_inv]: "pool_wf (rr\<lparr>rr_targetFailures := m\<rparr>) w = pool_wf rr w"
  by (simp add: pool_wf_def cursor_wf_def servers_wf_def)

text \<open>
  The contract the connection handlers rely on: a reported target is blocked up to a point in
  time, a success clears it, and the periodic clean-up is invisible.
\<close>

locale failure_table =
  fixes blocked :: "'s \<Rightarrow> 'k \<Rightarrow> time \<Rightarrow> bool"
    and report :: "'k \<Rightarrow> 's \<Rightarrow> 's" and clear :: "'k \<Rightarrow> 's \<Rightarrow> 's" and cleanup :: "'s \<Rightarrow> 's"
    and key :: "'k \<Rightarrow> 'x" and valid :: "'k \<Rightarrow> bool" and ok :: "'s \<Rightarrow> bool"
    and now :: time and until :: time
  assumes blocked_report: "ok s \<Longrightarrow> valid k \<Longrightarrow>
      blocked (report k s) k' t \<longleftrightarrow> (if valid k' \<and> key k' = key k then t < until else blocked s k' t)"
    and blocked_clear: "valid k \<Longrightarrow>
      blocked (clear k s) k' t \<longleftrightarrow> \<not> (valid k' \<and> key k' = key k) \<and> blocked s k' t"
    and blocked_cleanup: "now \<le> t \<Longrightarrow> blocked (cleanup s) k t \<longleftrightarrow> blocked s k t"
begin

lemma report_blocks_until: "ok s \<Longrightarrow> valid k \<Longrightarrow> blocked (report k s) k t \<longleftrightarrow> t < until"
  by (simp add: blocked_report)

lemma report_survives_cleanup:
  "ok s \<Longrightarrow> valid k \<Longrightarrow> now \<le> t \<Longrightarrow> blocked (cleanup (report k s)) k t \<longleftrightarrow> t < until"
  by (simp add: blocked_cleanup blocked_report)

lemma clear_after_report: "valid k \<Longrightarrow> \<not> blocked (clear k (report k s)) k t"
  by (simp add: blocked_clear)

lemma report_other:
  "ok s \<Longrightarrow> valid k \<Longrightarrow> key k' \<noteq> key k \<Longrightarrow> blocked (report k s) k' t \<longleftrightarrow> blocked s k' t"
  by (simp add: blocked_report)

lemma clear_other:
  "valid k \<Longrightarrow> key k' \<noteq> key k \<Longrightarrow> blocked (clear k s) k' t \<longleftrightarrow> blocked s k' t"
  by (simp add: blocked_clear)

end

text \<open>
  The pool provides it, at any moment \<open>w\<close> and for any positive time to live, when the first
  failure is to block (threshold 1, the default). A key is a client and a target.
\<close>

definition blocked_pair ::
    "'t world \<Rightarrow> 't RoundRobin \<Rightarrow> client_ref \<times> string \<Rightarrow> time \<Rightarrow> bool" where
  "blocked_pair w rr k t = blocked_at rr (addr_of w (fst k)) (snd k) t"

definition pair_key :: "'t world \<Rightarrow> client_ref \<times> string \<Rightarrow> string" where
  "pair_key w k = targetFailureKey (addr_of w (fst k)) (snd k)"

definition effective_ttl :: "duration \<Rightarrow> duration" where
  "effective_ttl ttl = (if ttl \<le> 0 then 10 * minute else ttl)"

text \<open>Failure counts never go below zero while fewer than \<open>2 ^ 63\<close> failures are counted.\<close>

definition counts_ok :: "'t RoundRobin \<Rightarrow> bool" where
  "counts_ok rr \<longleftrightarrow>
     (\<forall>k s. rr_targetFailures rr k = Some s \<longrightarrow> 0 \<le> tf_FailCount s \<and> tf_FailCount s < 2 ^ 63 - 1)"

lemma ReportTargetFailure_blocked:
  assumes "counts_ok rr" and "target \<noteq> ''''" and "threshold \<le> 1"
  shows "blocked_at (fst (ReportTargetFailure E (Some r) target threshold ttl err rr w)) a t' t \<longleftrightarrow>
     (if t' \<noteq> '''' \<and> targetFailureKey a t' = targetFailureKey (addr_of w r) target
      then t < time_now E (w_tick w) + effective_ttl ttl else blocked_at rr a t' t)"
proof -
  let ?k = "targetFailureKey (addr_of w r) target"
  have "1 \<le> go_int (tf_FailCount s + 1)" if "rr_targetFailures rr ?k = Some s" for s
    using assms(1) that by (subst go_int_id) (auto simp: counts_ok_def in_int64_def)
  moreover have "go_int 1 = 1" by (simp add: go_int_def)
  ultimately show ?thesis
    using assms(2,3)
    by (auto simp: ReportTargetFailure_def blocked_at_def now_at_def effective_ttl_def Let_def
        split: option.splits)
qed

lemma ReportTargetSuccess_blocked:
  assumes "target \<noteq> ''''"
  shows "blocked_at (ReportTargetSuccess (Some r) target rr w) a t' t \<longleftrightarrow>
     \<not> (t' \<noteq> '''' \<and> targetFailureKey a t' = targetFailureKey (addr_of w r) target) \<and>
     blocked_at rr a t' t"
  using assms by (auto simp: ReportTargetSuccess_def blocked_at_def)

lemma CleanupExpiredTargets_blocked:
  assumes "time_now E (w_tick w) \<le> t"
  shows "blocked_at (fst (CleanupExpiredTargets E rr w)) a target t \<longleftrightarrow> blocked_at rr a target t"
  using assms by (auto simp: CleanupExpiredTargets_def blocked_at_def now_at_def split: option.splits)

interpretation table: failure_table
  "blocked_pair w"
  "\<lambda>k rr. fst (ReportTargetFailure E (Some (fst k)) (snd k) 1 ttl err rr w)"
  "\<lambda>k rr. ReportTargetSuccess (Some (fst k)) (snd k) rr w"
  "\<lambda>rr. fst (CleanupExpiredTargets E rr w)"
  "pair_key w" "\<lambda>k. snd k \<noteq> ''''" counts_ok
  "time_now E (w_tick w)" "time_now E (w_tick w) + effective_ttl ttl"
  for w :: "'t world" and E ttl err
  by unfold_locales
    (auto simp: blocked_pair_def pair_key_def ReportTargetFailure_blocked
      ReportTargetSuccess_blocked CleanupExpiredTargets_blocked)

text \<open>What reporting changes: the table and, when it blocks, the clock's tick.\<close>

lemma ReportTargetFailure_frame:
  assumes "ReportTargetFailure E c target threshold ttl err rr w = (rr', w')"
  shows "rr' = rr\<lparr>rr_targetFailures := rr_targetFailures rr'\<rparr>"
    and "w_store w' = w_store w" and "w_cb w' = w_cb w"
  using assms
  by (auto simp: ReportTargetFailure_def now_at_def Let_def split: option.splits if_splits)

lemma ReportTargetFailure_wf [pool_inv]:
  assumes "ReportTargetFailure E c target threshold ttl err rr w = (rr', w')"
  shows "pool_wf rr' w' = pool_wf rr w"
proof -
  have "pool_wf rr' w' = pool_wf (rr\<lparr>rr_targetFailures := rr_targetFailures rr'\<rparr>) w"
    using ReportTargetFailure_frame(1,2) [OF assms]
    by (metis pool_wf_def servers_wf_def)
  then show ?thesis by (simp add: table_update_wf)
qed

lemma ReportTargetSuccess_wf [pool_inv]:
  "pool_wf (ReportTargetSuccess c target rr w) w' = pool_wf rr w'"
  by (simp add: ReportTargetSuccess_def table_update_wf split: option.split)

lemma CleanupExpiredTargets_wf [pool_inv]:
  "CleanupExpiredTargets E rr w = (rr', w') \<Longrightarrow> pool_wf rr' w' = pool_wf rr w"
  by (auto simp: CleanupExpiredTargets_def now_at_def table_update_wf)
    (simp_all add: pool_wf_def servers_wf_def)

section \<open>Sample pools\<close>

text \<open>
  Small pools on which the properties are evaluated: client \<open>i\<close> is the i-th host of the list,
  on port 22, and is connected when the flag says so.
\<close>

definition sample_server :: "string \<Rightarrow> SSHServer" where
  "sample_server h =
     \<lparr>s_Host = h, s_Port = 22, s_Username = ''root'', s_AuthMethod = AuthMethodPassword,
      s_KeyPath = '''', s_Password = ''pw'', s_ProxyCommand = ''''\<rparr>"

definition sample_client :: "string \<times> bool \<Rightarrow> SSHClient" where
  "sample_client x =
     (let c = NewSSHClientLazy (Some (sample_server (fst x))) in
      if snd x then c\<lparr>c_client := Some \<lparr>conn_id = 0, conn_present = True\<rparr>, c_healthy := True\<rparr>
      else c)"

definition sample_world :: "(string \<times> bool) list \<Rightarrow> 't \<Rightarrow> 't world" where
  "sample_world xs t =
     \<lparr>w_tick = 0,
      w_store = (\<lambda>r. sample_client (if r < length xs then xs ! r else (''spare'', False))),
      w_cb = t\<rparr>"

definition sample_pool :: "string \<Rightarrow> int \<Rightarrow> (string \<times> bool) list \<Rightarrow> 't RoundRobin" where
  "sample_pool strategy k xs = (NewRoundRobin strategy k)\<lparr>rr_servers := [0..<length xs]\<rparr>"

lemma sample_client_wf: "client_wf (sample_client x)"
  by (simp add: sample_client_def NewSSHClientLazy_def client_wf_def Let_def)

lemma sample_pool_wf: "pool_wf (sample_pool strategy k xs) (sample_world xs t)"
  using normalizeStrategy_range [of strategy]
  by (auto simp: pool_wf_def cursor_wf_def servers_wf_def sample_pool_def sample_world_def
      NewRoundRobin_def sample_client_wf)

lemma sample_pool_fields [simp]:
  "rr_servers (sample_pool strategy k xs) = [0..<length xs]"
  "rr_hasActive (sample_pool strategy k xs) = False"
  "rr_activeIdx (sample_pool strategy k xs) = 0"
  "rr_index (sample_pool strategy k xs) = 0"
  "rr_maxActive (sample_pool strategy k xs) = (if k \<le> 0 then 1 else k)"
  "rr_strategy (sample_pool strategy k xs) = normalizeStrategy strategy"
  "rr_targetFailures (sample_pool strategy k xs) = (\<lambda>_. None)"
  by (simp_all add: sample_pool_def NewRoundRobin_def)

lemma sample_world_fields [simp]:
  "w_tick (sample_world xs t) = 0"
  "r < length xs \<Longrightarrow> addr_of (sample_world xs t) r = fst (xs ! r) @ '':22''"
  "r < length xs \<Longrightarrow> up (sample_world xs t) r = snd (xs ! r)"
  by (simp_all add: sample_world_def addr_of_def up_def sample_client_def NewSSHClientLazy_def
      ServerAddr_def connected_def Addr_def sample_server_def Itoa_22 Let_def)

section \<open>Properties\<close>

lemma sample_world_all_up:
  "list_all snd xs \<Longrightarrow> \<forall>r \<in> set [0..<length xs]. up (sample_world xs t) r"
  by (simp add: list_all_length)

text \<open>A sample pool in failover mode whose active server is the one at index \<open>k\<close>.\<close>

definition sample_active :: "nat \<Rightarrow> (string \<times> bool) list \<Rightarrow> 't RoundRobin" where
  "sample_active k xs =
     (sample_pool ''failover'' 1 xs)\<lparr>rr_hasActive := True, rr_activeIdx := int k\<rparr>"

lemma failover_strategy [simp]: "normalizeStrategy ''failover'' = StrategyFailover"
  by code_simp

lemma sample_active_fields [simp]:
  "rr_servers (sample_active k xs) = [0..<length xs]"
  "rr_hasActive (sample_active k xs)"
  "rr_activeIdx (sample_active k xs) = int k"
  "rr_strategy (sample_active k xs) = StrategyFailover"
  "rr_targetFailures (sample_active k xs) = (\<lambda>_. None)"
  by (simp_all add: sample_active_def)

lemma sample_active_wf:
  "k < length xs \<Longrightarrow> pool_wf (sample_active k xs) (sample_world xs t)"
  using sample_pool_wf [of "''failover''" 1 xs t]
  by (simp add: sample_active_def pool_wf_def cursor_wf_def servers_wf_def)

text \<open>Removing a client other than the active one keeps the same client active: the
  index is shifted along with the servers behind the removed one.\<close>

theorem Remove_keeps_active:
  assumes "pool_wf rr w" and "distinct (rr_servers rr)" and "rr_hasActive rr"
    and "r \<noteq> rr_servers rr ! nat (rr_activeIdx rr)"
    and "Remove E r rr w = (rr', w')"
  shows "rr_hasActive rr' \<and>
    rr_servers rr' ! nat (rr_activeIdx rr') = rr_servers rr ! nat (rr_activeIdx rr) \<and>
    rr_servers rr' = remove1 r (rr_servers rr) \<and> (r \<in> set (rr_servers rr) \<longrightarrow> \<not> up w' r)"
proof -
  have bounds: "0 \<le> rr_activeIdx rr" "rr_activeIdx rr < int (length (rr_servers rr))"
    using assms(1,3) by (simp_all add: pool_wf_def cursor_wf_def)
  show ?thesis
  proof (cases "index_of r (rr_servers rr)")
    case None
    then have "r \<notin> set (rr_servers rr)" by (simp add: index_of_None)
    then show ?thesis using assms(3,5) None by (auto simp: Remove_def remove1_idem)
  next
    case (Some i)
    have i: "i < length (rr_servers rr)" "rr_servers rr ! i = r"
      using index_of_Some [OF Some] by auto
    have ne: "nat (rr_activeIdx rr) \<noteq> i" using assms(4) i(2) by auto
    let ?a = "nat (rr_activeIdx rr)"
    let ?rest = "take i (rr_servers rr) @ drop (Suc i) (rr_servers rr)"
    have a: "?a < length (rr_servers rr)" "int ?a = rr_activeIdx rr" using bounds by simp_all
    have "length ?rest = length (rr_servers rr) - 1" using i by simp
    then have ne0: "?rest \<noteq> []" using i(1) a(1) ne by force
    have w': "w' = snd (Close_at E r w)" and srv: "rr_servers rr' = remove1 r (rr_servers rr)"
      and act: "rr_hasActive rr'"
      and idx: "nat (rr_activeIdx rr') = (if i < ?a then ?a - 1 else ?a)"
      using assms(3,5) Some ne ne0 a index_of_remove1 [OF Some]
      by (auto simp: Remove_def Let_def split: if_splits)
    have "?rest ! (if i < ?a then ?a - 1 else ?a) = rr_servers rr ! ?a"
      using a(1) i(1) ne by (auto simp: nth_append)
    then have "rr_servers rr' ! nat (rr_activeIdx rr') = rr_servers rr ! ?a"
      using index_of_remove1 [OF Some] by (simp add: srv idx)
    moreover have "\<not> up w' r"
      using Close_at_cases(2) [OF prod.collapse [symmetric], of E r w r] by (simp add: w')
    ultimately show ?thesis using act srv by simp
  qed
qed

theorem Remove_keeps_active_witness:
  "rr_servers (fst (Remove (sample_env []) 0 (sample_active 1 [(''a'', True), (''b'', True)])
     (sample_world [(''a'', True), (''b'', True)] ()))) = [1]"
  using Remove_keeps_active [of "sample_active 1 [(''a'', True), (''b'', True)]"
      "sample_world [(''a'', True), (''b'', True)] ()" 0 "sample_env []", OF _ _ _ _ prod.collapse [symmetric]]
    sample_active_wf [of 1 "[(''a'', True), (''b'', True)]" "()"]
  by simp

text \<open>\<open>CloseAll\<close> empties the pool and leaves every client it listed disconnected, and no other
  client changes.\<close>

theorem CloseAll_closes:
  "case CloseAll E rr w of (rr', w') \<Rightarrow>
     Len rr' = 0 \<and> \<not> rr_hasActive rr' \<and>
     (\<forall>q. up w' q \<longleftrightarrow> q \<notin> set (rr_servers rr) \<and> up w q) \<and>
     (\<forall>q. q \<notin> set (rr_servers rr) \<longrightarrow> w_store w' q = w_store w q)"
  using close_list_evolves [of "rr_servers rr" w E]
  by (simp add: CloseAll_def Len_def close_list_up evolves_def)

theorem CloseAll_closes_witness:
  "\<not> up (snd (CloseAll (sample_env []) (sample_pool ''failover'' 1 [(''a'', True)])
     (sample_world [(''a'', True)] ()))) 0"
  using CloseAll_closes [where E = "sample_env []" and rr = "sample_pool ''failover'' 1 [(''a'', True)]"
      and w = "sample_world [(''a'', True)] ()"]
  by (auto split: prod.splits)

end
