(* ===== verification/Strategy.thy ===== *)
theory Strategy
  imports Pool
begin

text \<open>
  Selecting an upstream (\<open>internal/sshroundrobin/strategy.go\<close> and the \<open>Get\<close> methods of
  \<open>roundrobin.go\<close>). The loops over \<open>checked\<close> become recursions over the list of its values.
  The results are the selected client or an error, with the pool and the world afterwards.
\<close>

type_synonym 't selection = "(go_error + client_ref) \<times> 't RoundRobin \<times> 't world"

text \<open>The test on the \<open>exclude\<close> map, which may be nil.\<close>

definition excluded :: "string set option \<Rightarrow> string \<Rightarrow> bool" where
  "excluded ex addr = (case ex of None \<Rightarrow> False | Some S \<Rightarrow> addr \<in> S)"

definition no_available :: go_error where
  "no_available = err_new ''no available servers''"

section \<open>Load balancing\<close>

text \<open>
  One round of the loop per value of \<open>checked\<close>. The index is computed as in the code: the sum
  is a \<open>uint32\<close>, which wraps, and only then reduced modulo the number of servers.
\<close>

fun lb_scan ::
    "env \<Rightarrow> string \<Rightarrow> string set option \<Rightarrow> time \<Rightarrow> 32 word \<Rightarrow> int \<Rightarrow> nat list \<Rightarrow>
     't RoundRobin \<Rightarrow> 't world \<Rightarrow> 't selection" where
  "lb_scan E targetAddr exclude now startIdx connectedCount [] rr w = (Inl no_available, rr, w)"
| "lb_scan E targetAddr exclude now startIdx connectedCount (checked # rest) rr w =
     (let idx = unat (startIdx + word_of_nat checked) mod length (rr_servers rr);
          client = rr_servers rr ! idx
      in if excluded exclude (addr_of w client) then
           lb_scan E targetAddr exclude now startIdx connectedCount rest rr w
         else
           (case isTargetBlockedLocked (Some (w_store w client)) targetAddr now rr of
              (True, rr1) \<Rightarrow> lb_scan E targetAddr exclude now startIdx connectedCount rest rr1 w
            | (False, rr1) \<Rightarrow>
           (case IsConnected_at client w of
              (True, w1) \<Rightarrow> (Inr client, rr1, snd (MarkSelected_at E client w1))
            | (False, w1) \<Rightarrow>
              if connectedCount < rr_maxActive rr1 then
                (case EnsureConnected_at E client w1 of
                   (None, w2) \<Rightarrow> (Inr client, rr1, snd (MarkSelected_at E client w2))
                 | (Some e, w2) \<Rightarrow>
                     lb_scan E targetAddr exclude now startIdx connectedCount rest rr1
                       (notifyConnectionError rr1 (addr_of w2 client) e w2))
              else lb_scan E targetAddr exclude now startIdx connectedCount rest rr1 w1)))"

definition getLoadBalanceLocked ::
    "env \<Rightarrow> string \<Rightarrow> string set option \<Rightarrow> 't RoundRobin \<Rightarrow> 't world \<Rightarrow> 't selection" where
  "getLoadBalanceLocked E targetAddr exclude rr w =
     (case connectedCountLocked rr w of
        (connectedCount, w1) \<Rightarrow>
          (let startIdx = rr_index rr;
               rr1 = rr\<lparr>rr_index := rr_index rr + 1\<rparr>
           in case now_at E w1 of
                (now, w2) \<Rightarrow>
                  lb_scan E targetAddr exclude now startIdx connectedCount
                    [0..<length (rr_servers rr)] rr1 w2))"

section \<open>Failover\<close>

fun fo_scan ::
    "env \<Rightarrow> string \<Rightarrow> string set option \<Rightarrow> time \<Rightarrow> int \<Rightarrow> nat list \<Rightarrow>
     't RoundRobin \<Rightarrow> 't world \<Rightarrow> 't selection" where
  "fo_scan E targetAddr exclude now startIdx [] rr w =
     (Inl no_available, rr\<lparr>rr_hasActive := False, rr_activeIdx := 0\<rparr>, w)"
| "fo_scan E targetAddr exclude now startIdx (checked # rest) rr w =
     (let idx = go_rem (startIdx + int checked) (int (length (rr_servers rr)));
          client = rr_servers rr ! nat idx;
          use = (\<lambda>rr1. rr1\<lparr>rr_activeIdx := idx, rr_hasActive := True\<rparr>)
      in if rr_hasActive rr \<and> idx = rr_activeIdx rr then
           fo_scan E targetAddr exclude now startIdx rest rr w
         else if excluded exclude (addr_of w client) then
           fo_scan E targetAddr exclude now startIdx rest rr w
         else
           (case isTargetBlockedLocked (Some (w_store w client)) targetAddr now rr of
              (True, rr1) \<Rightarrow> fo_scan E targetAddr exclude now startIdx rest rr1 w
            | (False, rr1) \<Rightarrow>
           (case IsConnected_at client w of
              (True, w1) \<Rightarrow> (Inr client, use rr1, snd (MarkSelected_at E client w1))
            | (False, w1) \<Rightarrow>
           (case EnsureConnected_at E client w1 of
              (None, w2) \<Rightarrow> (Inr client, use rr1, snd (MarkSelected_at E client w2))
            | (Some e, w2) \<Rightarrow>
                fo_scan E targetAddr exclude now startIdx rest rr1
                  (notifyConnectionError rr1 (addr_of w2 client) e w2)))))"

text \<open>The code after the label \<open>scanNext\<close>.\<close>

definition scanNext ::
    "env \<Rightarrow> string \<Rightarrow> string set option \<Rightarrow> time \<Rightarrow> 't RoundRobin \<Rightarrow> 't world \<Rightarrow> 't selection" where
  "scanNext E targetAddr exclude now rr w =
     (let len = length (rr_servers rr) in
      if rr_hasActive rr \<and> 0 < len then
        fo_scan E targetAddr exclude now (go_rem (rr_activeIdx rr + 1) (int len)) [0..<len] rr w
      else
        fo_scan E targetAddr exclude now (go_rem (uint (rr_index rr)) (int len)) [0..<len]
          (rr\<lparr>rr_index := rr_index rr + 1\<rparr>) w)"

definition getFailoverLocked ::
    "env \<Rightarrow> string \<Rightarrow> string set option \<Rightarrow> 't RoundRobin \<Rightarrow> 't world \<Rightarrow> 't selection" where
  "getFailoverLocked E targetAddr exclude rr w =
     (case now_at E w of
        (now, w0) \<Rightarrow>
          if rr_hasActive rr \<and> 0 \<le> rr_activeIdx rr \<and>
             rr_activeIdx rr < int (length (rr_servers rr))
          then
            (let active = rr_servers rr ! nat (rr_activeIdx rr) in
             if excluded exclude (addr_of w0 active) then scanNext E targetAddr exclude now rr w0
             else
               (case isTargetBlockedLocked (Some (w_store w0 active)) targetAddr now rr of
                  (True, rr1) \<Rightarrow> scanNext E targetAddr exclude now rr1 w0
                | (False, rr1) \<Rightarrow>
               (case IsConnected_at active w0 of
                  (True, w1) \<Rightarrow> (Inr active, rr1, snd (MarkSelected_at E active w1))
                | (False, w1) \<Rightarrow>
               (case EnsureConnected_at E active w1 of
                  (None, w2) \<Rightarrow> (Inr active, rr1, snd (MarkSelected_at E active w2))
                | (Some e, w2) \<Rightarrow>
                    scanNext E targetAddr exclude now rr1
                      (notifyConnectionError rr1 (addr_of w2 active) e w2)))))
          else scanNext E targetAddr exclude now rr w0)"

section \<open>The Get methods\<close>

definition GetForTarget ::
    "env \<Rightarrow> string \<Rightarrow> string set option \<Rightarrow> 't RoundRobin \<Rightarrow> 't world \<Rightarrow> 't selection" where
  "GetForTarget E targetAddr exclude rr w =
     (if rr_servers rr = [] then (Inl (err_new ''no servers available''), rr, w)
      else if rr_strategy rr = StrategyFailover then
        getFailoverLocked E targetAddr exclude rr w
      else getLoadBalanceLocked E targetAddr exclude rr w)"

definition Get :: "env \<Rightarrow> 't RoundRobin \<Rightarrow> 't world \<Rightarrow> 't selection" where
  "Get E rr w = GetForTarget E '''' None rr w"

text \<open>
  The retry loop; \<open>left\<close> counts the rounds still to run. Sleeping changes nothing here. With
  no round at all \<open>lastErr\<close> is nil, which \<open>%w\<close> prints as \<open>%!w(<nil>)\<close>.
\<close>

fun retry_loop ::
    "env \<Rightarrow> int \<Rightarrow> nat \<Rightarrow> go_error option \<Rightarrow> 't RoundRobin \<Rightarrow> 't world \<Rightarrow> 't selection" where
  "retry_loop E maxRetries 0 lastErr rr w =
     (Inl (Errorf (''failed after '' @ Itoa maxRetries @ '' retries: '' @
                   (case lastErr of None \<Rightarrow> ''%!w(<nil>)'' | Some e \<Rightarrow> Error e)) lastErr), rr, w)"
| "retry_loop E maxRetries (Suc left) lastErr rr w =
     (case GetForTarget E '''' None rr w of
        (Inr client, rr1, w1) \<Rightarrow> (Inr client, rr1, w1)
      | (Inl e, rr1, w1) \<Rightarrow> retry_loop E maxRetries left (Some e) rr1 w1)"

definition GetWithRetry :: "env \<Rightarrow> int \<Rightarrow> 't RoundRobin \<Rightarrow> 't world \<Rightarrow> 't selection" where
  "GetWithRetry E maxRetries rr w = retry_loop E maxRetries (nat maxRetries) None rr w"

section \<open>One candidate\<close>

text \<open>
  Both loops, and the attempt on the active server, treat a candidate the same way up to what
  they do on success. \<open>try_client\<close> is that common part, used in the proofs; \<open>allow\<close> says
  whether a new connection may be opened.
\<close>

definition try_client ::
    "env \<Rightarrow> string \<Rightarrow> string set option \<Rightarrow> time \<Rightarrow> bool \<Rightarrow> client_ref \<Rightarrow>
     't RoundRobin \<Rightarrow> 't world \<Rightarrow> bool \<times> 't RoundRobin \<times> 't world" where
  "try_client E target ex now allow r rr w =
     (if excluded ex (addr_of w r) then (False, rr, w)
      else
        (case isTargetBlockedLocked (Some (w_store w r)) target now rr of
           (True, rr1) \<Rightarrow> (False, rr1, w)
         | (False, rr1) \<Rightarrow>
        (case IsConnected_at r w of
           (True, w1) \<Rightarrow> (True, rr1, snd (MarkSelected_at E r w1))
         | (False, w1) \<Rightarrow>
           if allow then
             (case EnsureConnected_at E r w1 of
                (None, w2) \<Rightarrow> (True, rr1, snd (MarkSelected_at E r w2))
              | (Some e, w2) \<Rightarrow> (False, rr1, notifyConnectionError rr1 (addr_of w2 r) e w2))
           else (False, rr1, w1))))"

lemma isTargetBlockedLocked_frame:
  assumes "isTargetBlockedLocked c target now rr = (b, rr')"
  shows "rr_servers rr' = rr_servers rr" "rr_maxActive rr' = rr_maxActive rr"
    "rr_strategy rr' = rr_strategy rr" "rr_hasActive rr' = rr_hasActive rr"
    "rr_activeIdx rr' = rr_activeIdx rr" "rr_index rr' = rr_index rr"
    "rr_OnConnectionError rr' = rr_OnConnectionError rr"
  using assms
  by (auto simp: isTargetBlockedLocked_def Let_def split: option.splits if_splits)

definition lb_client :: "'t RoundRobin \<Rightarrow> 32 word \<Rightarrow> nat \<Rightarrow> client_ref" where
  "lb_client rr startIdx checked =
     rr_servers rr ! (unat (startIdx + word_of_nat checked) mod length (rr_servers rr))"

lemma lb_scan_Cons:
  "lb_scan E target ex now startIdx cc (checked # rest) rr w =
     (case try_client E target ex now (cc < rr_maxActive rr) (lb_client rr startIdx checked) rr w of
        (True, rr1, w1) \<Rightarrow> (Inr (lb_client rr startIdx checked), rr1, w1)
      | (False, rr1, w1) \<Rightarrow> lb_scan E target ex now startIdx cc rest rr1 w1)"
  by (auto simp: try_client_def lb_client_def Let_def isTargetBlockedLocked_frame
      split: prod.split bool.split option.split)

definition fo_index :: "'t RoundRobin \<Rightarrow> int \<Rightarrow> nat \<Rightarrow> int" where
  "fo_index rr startIdx checked = go_rem (startIdx + int checked) (int (length (rr_servers rr)))"

lemma fo_scan_Cons:
  "fo_scan E target ex now startIdx (checked # rest) rr w =
     (let idx = fo_index rr startIdx checked; r = rr_servers rr ! nat idx in
      if rr_hasActive rr \<and> idx = rr_activeIdx rr then fo_scan E target ex now startIdx rest rr w
      else
        (case try_client E target ex now True r rr w of
           (True, rr1, w1) \<Rightarrow> (Inr r, rr1\<lparr>rr_activeIdx := idx, rr_hasActive := True\<rparr>, w1)
         | (False, rr1, w1) \<Rightarrow> fo_scan E target ex now startIdx rest rr1 w1))"
  by (auto simp: try_client_def fo_index_def Let_def split: prod.split bool.split option.split)

lemma getFailoverLocked_eq:
  "getFailoverLocked E target ex rr w =
     (case now_at E w of
        (now, w0) \<Rightarrow>
          if rr_hasActive rr \<and> 0 \<le> rr_activeIdx rr \<and> rr_activeIdx rr < int (length (rr_servers rr))
          then
            (let r = rr_servers rr ! nat (rr_activeIdx rr) in
             case try_client E target ex now True r rr w0 of
               (True, rr1, w1) \<Rightarrow> (Inr r, rr1, w1)
             | (False, rr1, w1) \<Rightarrow> scanNext E target ex now rr1 w1)
          else scanNext E target ex now rr w0)"
  by (auto simp: getFailoverLocked_def try_client_def Let_def split: prod.split bool.split option.split)

text \<open>
  The facts about one candidate: what it changes, when it is taken, and why it is passed over.
\<close>

lemma try_client_frame:
  assumes "ssh_library_ok E" and "client_wf (w_store w r)"
    and "try_client E target ex now allow r rr w = (b, rr', w')"
  shows "rr' = rr\<lparr>rr_targetFailures := rr_targetFailures rr'\<rparr>"
    and "pruned now (rr_targetFailures rr) (rr_targetFailures rr')"
    and "evolves {r} w w'"
    and "up w' q \<longleftrightarrow> up w q \<or> (b \<and> q = r)"
  using assms(3) isTargetBlockedLocked_cases(2,3) [of "w_store w r" target now rr]
    EnsureConnected_at_cases(1,2,3) [OF assms(1,2)]
  by (auto simp: try_client_def assms(2) split: prod.splits bool.splits option.splits if_splits)

lemma try_client_taken:
  assumes "ssh_library_ok E" and "client_wf (w_store w r)"
    and "try_client E target ex now allow r rr w = (True, rr', w')"
  shows "\<not> excluded ex (addr_of w r)" and "\<not> blocked_at rr (addr_of w r) target now"
    and "target = '''' \<or> rr_targetFailures rr' (targetFailureKey (addr_of w r) target) = None"
    and "up w r \<or> allow" and "up w' r"
  using assms(3) isTargetBlockedLocked_cases [of "w_store w r" target now rr]
    EnsureConnected_at_cases(2) [OF assms(1,2)]
  by (auto simp: try_client_def assms(2) addr_of_def split: prod.splits bool.splits option.splits if_splits)

text \<open>
  A client that is passed over is excluded, blocked, or down; and when connecting was
  allowed, a connection attempt to its server was refused.
\<close>

definition refused :: "env \<Rightarrow> 't world \<Rightarrow> client_ref \<Rightarrow> bool" where
  "refused E w r \<longleftrightarrow> (\<exists>n e. fst (connect E (the (c_server (w_store w r))) n) = Inl e)"

definition passed ::
    "env \<Rightarrow> string \<Rightarrow> string set option \<Rightarrow> time \<Rightarrow> bool \<Rightarrow> 't RoundRobin \<Rightarrow> 't world \<Rightarrow>
     client_ref \<Rightarrow> bool" where
  "passed E target ex now allow rr w r \<longleftrightarrow>
     excluded ex (addr_of w r) \<or> blocked_at rr (addr_of w r) target now \<or>
     (\<not> up w r \<and> (allow \<longrightarrow> refused E w r))"

lemma EnsureConnected_at_refused:
  assumes "client_wf (w_store w r)" and "EnsureConnected_at E r w = (Some e, w')"
  shows "refused E w r"
proof -
  obtain c n where f: "EnsureConnected E (w_store w r) (w_tick w) = (Some e, c, n)"
    using assms(2) unfolding EnsureConnected_at_def by (rule at_clientE)
  obtain s where s: "c_server (w_store w r) = Some s"
    using assms(1) by (auto simp: client_wf_def)
  from f have "Reconnect E (w_store w r) (w_tick w) = (Some e, c, n)"
    using assms(1) by (auto simp: EnsureConnected_def split: bool.splits)
  then show ?thesis
    by (auto simp: Reconnect_def refused_def s Let_def split: prod.splits sum.splits option.splits)
      (metis fst_conv)+
qed

lemma try_client_passed:
  assumes "ssh_library_ok E" and "client_wf (w_store w r)"
    and "try_client E target ex now allow r rr w = (False, rr', w')"
  shows "passed E target ex now allow rr w r"
  using assms(3) isTargetBlockedLocked_cases(1) [of "w_store w r" target now rr]
    EnsureConnected_at_refused [OF assms(2)]
  by (auto simp: try_client_def assms(2) addr_of_def passed_def
      split: prod.splits bool.splits option.splits if_splits)

text \<open>
  A pool after a scan: the table may have lost records that block nothing, servers in the scan
  may have been connected, nothing was disconnected. \<open>r\<close> is the selected client, if any.
\<close>

definition scan_frame ::
    "time \<Rightarrow> 't RoundRobin \<Rightarrow> 't world \<Rightarrow> client_ref option \<Rightarrow> 't RoundRobin \<Rightarrow> 't world \<Rightarrow> bool" where
  "scan_frame now rr w r rr' w' \<longleftrightarrow>
     rr_servers rr' = rr_servers rr \<and> rr_strategy rr' = rr_strategy rr \<and>
     rr_maxActive rr' = rr_maxActive rr \<and> rr_OnConnectionError rr' = rr_OnConnectionError rr \<and>
     pruned now (rr_targetFailures rr) (rr_targetFailures rr') \<and>
     evolves (set (rr_servers rr)) w w' \<and>
     (\<forall>q. up w' q \<longleftrightarrow> up w q \<or> r = Some q)"

lemma scan_frame_refl [simp]: "scan_frame now rr w None rr w"
  by (simp add: scan_frame_def)

lemma scan_frame_trans:
  "scan_frame now rr w None rr1 w1 \<Longrightarrow> scan_frame now rr1 w1 r rr' w' \<Longrightarrow>
   scan_frame now rr w r rr' w'"
  by (auto simp: scan_frame_def intro: evolves_trans pruned_trans)

lemma try_client_scan_frame:
  assumes "ssh_library_ok E" and "servers_wf rr w" and "r \<in> set (rr_servers rr)"
    and "try_client E target ex now allow r rr w = (b, rr', w')"
  shows "scan_frame now rr w (if b then Some r else None) rr' w'"
    and "rr_hasActive rr' = rr_hasActive rr" and "rr_activeIdx rr' = rr_activeIdx rr"
    and "rr_index rr' = rr_index rr"
    and "servers_wf rr' w'"
proof -
  note frame = try_client_frame [OF assms(1) servers_wfD [OF assms(2,3)] assms(4)]
  have ev: "evolves (set (rr_servers rr)) w w'"
    using frame(3) by (rule evolves_mono) (simp add: assms(3))
  have eqs: "rr_servers rr' = rr_servers rr \<and> rr_strategy rr' = rr_strategy rr \<and>
      rr_maxActive rr' = rr_maxActive rr \<and> rr_OnConnectionError rr' = rr_OnConnectionError rr \<and>
      rr_hasActive rr' = rr_hasActive rr \<and> rr_activeIdx rr' = rr_activeIdx rr \<and>
      rr_index rr' = rr_index rr"
    using frame(1) by (cases rr') simp
  show "scan_frame now rr w (if b then Some r else None) rr' w'"
    using eqs frame(2,4) ev by (auto simp: scan_frame_def)
  show "rr_hasActive rr' = rr_hasActive rr" "rr_activeIdx rr' = rr_activeIdx rr"
    "rr_index rr' = rr_index rr" using eqs by simp_all
  show "servers_wf rr' w'" using assms(2) ev eqs by (auto intro: servers_wf_evolves)
qed

section \<open>Scanning a list of candidates\<close>

text \<open>
  Both loops are a scan of a list of clients that stops at the first one taken. \<open>scan\<close>
  returns its position; the lemmas about it serve both strategies.
\<close>

fun scan ::
    "env \<Rightarrow> string \<Rightarrow> string set option \<Rightarrow> time \<Rightarrow> bool \<Rightarrow> client_ref list \<Rightarrow>
     't RoundRobin \<Rightarrow> 't world \<Rightarrow> nat option \<times> 't RoundRobin \<times> 't world" where
  "scan E target ex now allow [] rr w = (None, rr, w)"
| "scan E target ex now allow (r # rs) rr w =
     (case try_client E target ex now allow r rr w of
        (True, rr1, w1) \<Rightarrow> (Some 0, rr1, w1)
      | (False, rr1, w1) \<Rightarrow>
          (case scan E target ex now allow rs rr1 w1 of
             (p, rr2, w2) \<Rightarrow> (map_option Suc p, rr2, w2)))"


definition taken ::
    "string \<Rightarrow> string set option \<Rightarrow> time \<Rightarrow> bool \<Rightarrow> 't RoundRobin \<Rightarrow> 't world \<Rightarrow> 't RoundRobin \<Rightarrow>
     client_ref \<Rightarrow> bool" where
  "taken target ex now allow rr w rr' r \<longleftrightarrow>
     \<not> excluded ex (addr_of w r) \<and> \<not> blocked_at rr (addr_of w r) target now \<and>
     (target = '''' \<or> rr_targetFailures rr' (targetFailureKey (addr_of w r) target) = None) \<and>
     (up w r \<or> allow)"

lemma scan_frame_blocked:
  "scan_frame now rr w r rr' w' \<Longrightarrow> blocked_at rr' a t now = blocked_at rr a t now"
  by (simp add: scan_frame_def pruned_blocked)

lemma scan_frame_addr: "scan_frame now rr w r rr' w' \<Longrightarrow> addr_of w' q = addr_of w q"
  by (auto simp: scan_frame_def intro: evolves_addr)

lemma scan_frame_passed:
  "scan_frame now rr w None rr' w' \<Longrightarrow>
   passed E t ex now allow rr' w' q = passed E t ex now allow rr w q"
  by (simp add: passed_def scan_frame_blocked scan_frame_addr)
    (simp add: scan_frame_def evolves_def refused_def)

lemma scan_frame_taken:
  "scan_frame now rr w None rr1 w1 \<Longrightarrow>
   taken t ex now allow rr1 w1 rr' q = taken t ex now allow rr w rr' q"
  by (simp add: taken_def scan_frame_blocked scan_frame_addr) (simp add: scan_frame_def)

definition same_cursor :: "'t RoundRobin \<Rightarrow> 't RoundRobin \<Rightarrow> bool" where
  "same_cursor rr rr' \<longleftrightarrow>
     rr_hasActive rr' = rr_hasActive rr \<and> rr_activeIdx rr' = rr_activeIdx rr \<and>
     rr_index rr' = rr_index rr"

lemma scan_correct:
  assumes "ssh_library_ok E"
  shows "servers_wf rr w \<Longrightarrow> set rs \<subseteq> set (rr_servers rr) \<Longrightarrow>
     scan E t ex now allow rs rr w = (p, rr', w') \<Longrightarrow>
     scan_frame now rr w (map_option (nth rs) p) rr' w' \<and> same_cursor rr rr' \<and>
     servers_wf rr' w' \<and>
     (case p of
        None \<Rightarrow> \<forall>r \<in> set rs. passed E t ex now allow rr w r
      | Some i \<Rightarrow> i < length rs \<and> taken t ex now allow rr w rr' (rs ! i) \<and>
                  (\<forall>j < i. passed E t ex now allow rr w (rs ! j)))"
proof (induction rs arbitrary: rr w p)
  case Nil
  then show ?case by (simp add: same_cursor_def)
next
  case (Cons r rs)
  obtain b rr1 w1 where t: "try_client E t ex now allow r rr w = (b, rr1, w1)"
    by (cases "try_client E t ex now allow r rr w")
  have r: "r \<in> set (rr_servers rr)" using Cons.prems(2) by simp
  note wf = servers_wfD [OF Cons.prems(1) r]
  note fr = try_client_scan_frame [OF assms Cons.prems(1) r t]
  show ?case
  proof (cases b)
    case True
    with t Cons.prems(3) have eq: "p = Some 0" "rr' = rr1" "w' = w1" by simp_all
    have "taken t ex now allow rr w rr1 r"
      using try_client_taken [OF assms wf] t True by (auto simp: taken_def)
    with fr True show ?thesis by (simp add: eq same_cursor_def)
  next
    case False
    with t Cons.prems(3) obtain p1 where
      s: "scan E t ex now allow rs rr1 w1 = (p1, rr', w')" and p: "p = map_option Suc p1"
      by (auto split: prod.splits)
    have f1: "scan_frame now rr w None rr1 w1" using fr(1) False by simp
    have "set rs \<subseteq> set (rr_servers rr1)" using Cons.prems(2) f1 by (simp add: scan_frame_def)
    note IH = Cons.IH [OF fr(5) this s]
    have "scan_frame now rr w (map_option (nth rs) p1) rr' w'"
      using scan_frame_trans [OF f1] IH by blast
    moreover have "map_option ((!) (r # rs)) p = map_option (nth rs) p1"
      by (cases p1) (simp_all add: p)
    moreover have "same_cursor rr rr'" using IH fr(2-4) by (simp add: same_cursor_def)
    moreover have "passed E t ex now allow rr w r"
      using try_client_passed [OF assms wf] t False by simp
    ultimately show ?thesis
      using IH scan_frame_passed [OF f1] scan_frame_taken [OF f1]
      by (cases p1) (auto simp: p less_Suc_eq_0_disj)
  qed
qed

lemma try_client_servers:
  assumes "try_client E t ex now allow r rr w = (b, rr', w')"
  shows "rr_servers rr' = rr_servers rr" "rr_maxActive rr' = rr_maxActive rr"
    "rr_hasActive rr' = rr_hasActive rr" "rr_activeIdx rr' = rr_activeIdx rr"
  using assms
  by (auto simp: try_client_def isTargetBlockedLocked_frame
      split: prod.splits bool.splits option.splits if_splits)

lemma lb_scan_eq:
  "lb_scan E t ex now si cc cks rr w =
     (case scan E t ex now (cc < rr_maxActive rr) (map (lb_client rr si) cks) rr w of
        (None, rr', w') \<Rightarrow> (Inl no_available, rr', w')
      | (Some i, rr', w') \<Rightarrow> (Inr (lb_client rr si (cks ! i)), rr', w'))"
proof (induction cks arbitrary: rr w)
  case (Cons k cks)
  obtain b rr1 w1 where t: "try_client E t ex now (cc < rr_maxActive rr) (lb_client rr si k) rr w
      = (b, rr1, w1)"
    by (cases "try_client E t ex now (cc < rr_maxActive rr) (lb_client rr si k) rr w")
  have "lb_client rr1 si = lb_client rr si" and "rr_maxActive rr1 = rr_maxActive rr"
    using try_client_servers(1,2) [OF t] by (auto simp: lb_client_def)
  with Cons t show ?case
    by (auto simp: lb_scan_Cons simp del: lb_scan.simps(2) split: prod.split option.split bool.split)
qed simp

definition fo_indices :: "'t RoundRobin \<Rightarrow> int \<Rightarrow> nat list \<Rightarrow> int list" where
  "fo_indices rr si cks =
     filter (\<lambda>i. \<not> (rr_hasActive rr \<and> i = rr_activeIdx rr)) (map (fo_index rr si) cks)"

lemma fo_scan_eq:
  "fo_scan E t ex now si cks rr w =
     (let is = fo_indices rr si cks in
      case scan E t ex now True (map (\<lambda>i. rr_servers rr ! nat i) is) rr w of
        (None, rr', w') \<Rightarrow> (Inl no_available, rr'\<lparr>rr_hasActive := False, rr_activeIdx := 0\<rparr>, w')
      | (Some i, rr', w') \<Rightarrow>
          (Inr (rr_servers rr ! nat (is ! i)),
           rr'\<lparr>rr_activeIdx := is ! i, rr_hasActive := True\<rparr>, w'))"
proof (induction cks arbitrary: rr w)
  case Nil
  then show ?case by (simp add: fo_indices_def)
next
  case (Cons k cks)
  let ?i = "fo_index rr si k"
  show ?case
  proof (cases "rr_hasActive rr \<and> ?i = rr_activeIdx rr")
    case True
    then have "fo_indices rr si (k # cks) = fo_indices rr si cks"
      by (simp add: fo_indices_def)
    moreover from True
    have "fo_scan E t ex now si (k # cks) rr w = fo_scan E t ex now si cks rr w"
      by (simp add: fo_scan_Cons Let_def del: fo_scan.simps(2))
    ultimately show ?thesis using Cons [of rr w] by simp
  next
    case False
    obtain b rr1 w1 where t: "try_client E t ex now True (rr_servers rr ! nat ?i) rr w = (b, rr1, w1)"
      by (cases "try_client E t ex now True (rr_servers rr ! nat ?i) rr w")
    have "fo_index rr1 si = fo_index rr si"
      by (rule ext) (simp add: fo_index_def try_client_servers [OF t])
    then have "rr_servers rr1 = rr_servers rr" and "fo_indices rr1 si cks = fo_indices rr si cks"
      using try_client_servers [OF t] by (simp_all add: fo_indices_def)
    with Cons t False show ?thesis
      by (auto simp: fo_scan_Cons fo_indices_def Let_def simp del: fo_scan.simps(2)
          split: prod.split option.split bool.split)
  qed
qed

section \<open>The strategies\<close>

lemma cover_indices:
  assumes "0 \<le> si" and "0 < n"
  shows "(\<lambda>k. (si + int k) mod int n) ` {0..<n} = {0..<int n}"
proof
  show "(\<lambda>k. (si + int k) mod int n) ` {0..<n} \<subseteq> {0..<int n}"
    using assms by auto
  show "{0..<int n} \<subseteq> (\<lambda>k. (si + int k) mod int n) ` {0..<n}"
  proof
    fix i assume i: "i \<in> {0..<int n}"
    let ?k = "nat ((i - si) mod int n)"
    have "int ?k = (i - si) mod int n" using assms by simp
    then have "(si + int ?k) mod int n = i"
      using i by (simp add: mod_simps)
    moreover have "?k \<in> {0..<n}" using assms by (simp add: nat_less_iff)
    ultimately show "i \<in> (\<lambda>k. (si + int k) mod int n) ` {0..<n}" by force
  qed
qed

lemma fo_indices_set:
  assumes "0 \<le> si" and "0 < length (rr_servers rr)"
  shows "set (fo_indices rr si [0..<length (rr_servers rr)]) =
     {i. 0 \<le> i \<and> i < int (length (rr_servers rr)) \<and> \<not> (rr_hasActive rr \<and> i = rr_activeIdx rr)}"
proof -
  have "fo_index rr si ` {0..<length (rr_servers rr)} = {0..<int (length (rr_servers rr))}"
    using cover_indices [OF assms] assms by (auto simp: fo_index_def image_def)
  then show ?thesis by (auto simp: fo_indices_def)
qed

text \<open>
  What a selection in failover mode promises, from the pool and world at its start: the
  client taken becomes the active one; without one the pool has no active server and every
  server was passed over.
\<close>

definition fo_taken ::
    "string \<Rightarrow> string set option \<Rightarrow> time \<Rightarrow> 't RoundRobin \<Rightarrow> 't world \<Rightarrow> client_ref \<Rightarrow>
     't RoundRobin \<Rightarrow> 't world \<Rightarrow> bool" where
  "fo_taken t ex now rr w r rr' w' \<longleftrightarrow>
     scan_frame now rr w (Some r) rr' w' \<and> servers_wf rr' w' \<and> taken t ex now True rr w rr' r \<and>
     rr_hasActive rr' \<and> 0 \<le> rr_activeIdx rr' \<and> rr_activeIdx rr' < int (length (rr_servers rr)) \<and>
     rr_servers rr ! nat (rr_activeIdx rr') = r"

definition fo_failed ::
    "env \<Rightarrow> string \<Rightarrow> string set option \<Rightarrow> time \<Rightarrow> 't RoundRobin \<Rightarrow> 't world \<Rightarrow> go_error \<Rightarrow>
     't RoundRobin \<Rightarrow> 't world \<Rightarrow> bool" where
  "fo_failed E t ex now rr w e rr' w' \<longleftrightarrow>
     e = no_available \<and> scan_frame now rr w None rr' w' \<and> servers_wf rr' w' \<and>
     \<not> rr_hasActive rr' \<and> rr_activeIdx rr' = 0 \<and>
     (\<forall>i < length (rr_servers rr).
        \<not> (rr_hasActive rr \<and> int i = rr_activeIdx rr) \<longrightarrow>
        passed E t ex now True rr w (rr_servers rr ! i))"

definition fo_result ::
    "env \<Rightarrow> string \<Rightarrow> string set option \<Rightarrow> time \<Rightarrow> 't RoundRobin \<Rightarrow> 't world \<Rightarrow> 't selection \<Rightarrow> bool" where
  "fo_result E t ex now rr w res \<longleftrightarrow>
     (case res of
        (Inr r, rr', w') \<Rightarrow> fo_taken t ex now rr w r rr' w'
      | (Inl e, rr', w') \<Rightarrow> fo_failed E t ex now rr w e rr' w')"

lemma set_cursor_frame:
  "scan_frame now rr w r (rr1\<lparr>rr_activeIdx := i, rr_hasActive := h\<rparr>) w1 = scan_frame now rr w r rr1 w1"
  "scan_frame now rr w r (rr1\<lparr>rr_hasActive := h, rr_activeIdx := i\<rparr>) w1 = scan_frame now rr w r rr1 w1"
  "servers_wf (rr1\<lparr>rr_activeIdx := i, rr_hasActive := h\<rparr>) w1 = servers_wf rr1 w1"
  "servers_wf (rr1\<lparr>rr_hasActive := h, rr_activeIdx := i\<rparr>) w1 = servers_wf rr1 w1"
  "taken t ex now a rr w (rr1\<lparr>rr_activeIdx := i, rr_hasActive := h\<rparr>) q = taken t ex now a rr w rr1 q"
  by (simp_all add: scan_frame_def servers_wf_def taken_def)

lemma fo_scan_result:
  assumes "ssh_library_ok E" and "servers_wf rr w" and "0 \<le> si" and "rr_servers rr \<noteq> []"
  shows "fo_result E t ex now rr w (fo_scan E t ex now si [0..<length (rr_servers rr)] rr w)"
proof -
  let ?is = "fo_indices rr si [0..<length (rr_servers rr)]"
  let ?rs = "map (\<lambda>i. rr_servers rr ! nat i) ?is"
  obtain p rr1 w1 where s: "scan E t ex now True ?rs rr w = (p, rr1, w1)"
    by (cases "scan E t ex now True ?rs rr w")
  have idx: "set ?is = {i. 0 \<le> i \<and> i < int (length (rr_servers rr)) \<and>
      \<not> (rr_hasActive rr \<and> i = rr_activeIdx rr)}"
    by (rule fo_indices_set) (use assms(3,4) in simp_all)
  have "rr_servers rr ! nat i \<in> set (rr_servers rr)" if "i \<in> set ?is" for i
    using that unfolding idx by (auto simp: nat_less_iff)
  then have "set ?rs \<subseteq> set (rr_servers rr)" unfolding set_map by blast
  note c = scan_correct [OF assms(1,2) this s]
  show ?thesis
  proof (cases p)
    case None
    have "passed E t ex now True rr w (rr_servers rr ! i)"
      if "i < length (rr_servers rr)" "\<not> (rr_hasActive rr \<and> int i = rr_activeIdx rr)" for i
    proof -
      have "\<forall>x \<in> set ?is. passed E t ex now True rr w (rr_servers rr ! nat x)"
        using c None by simp
      moreover have "int i \<in> set ?is" using that by (simp add: idx)
      ultimately have "passed E t ex now True rr w (rr_servers rr ! nat (int i))" by (rule bspec)
      then show ?thesis by simp
    qed
    then have "fo_failed E t ex now rr w no_available (rr1\<lparr>rr_hasActive := False, rr_activeIdx := 0\<rparr>) w1"
      using c None by (simp add: fo_failed_def set_cursor_frame)
    then show ?thesis using None s by (simp add: fo_result_def fo_scan_eq Let_def)
  next
    case (Some k)
    then have k: "k < length ?is" using c by simp
    then have "?is ! k \<in> set ?is" by (rule nth_mem)
    then have "0 \<le> ?is ! k" "?is ! k < int (length (rr_servers rr))" by (auto simp: idx)
    then have "fo_taken t ex now rr w (?rs ! k) (rr1\<lparr>rr_activeIdx := ?is ! k, rr_hasActive := True\<rparr>) w1"
      using c Some k by (simp add: fo_taken_def set_cursor_frame)
    then show ?thesis using Some s k by (simp add: fo_result_def fo_scan_eq Let_def)
  qed
qed

lemma scanNext_result:
  assumes "ssh_library_ok E" and "servers_wf rr w" and "rr_servers rr \<noteq> []"
    and "rr_hasActive rr \<Longrightarrow> 0 \<le> rr_activeIdx rr"
  shows "fo_result E t ex now rr w (scanNext E t ex now rr w)"
proof (cases "rr_hasActive rr")
  case True
  then show ?thesis
    using fo_scan_result [OF assms(1,2) _ assms(3)] assms(3,4) by (simp add: scanNext_def Let_def)
next
  case False
  let ?rr = "rr\<lparr>rr_index := rr_index rr + 1\<rparr>"
  have "servers_wf ?rr w" using assms(2) by (simp add: servers_wf_def)
  from fo_scan_result [OF assms(1) this, of "uint (rr_index rr) mod int (length (rr_servers rr))"]
  have "fo_result E t ex now ?rr w (scanNext E t ex now rr w)"
    using False assms(3) by (simp add: scanNext_def Let_def)
  moreover have "fo_taken t ex now ?rr w r rr' w' = fo_taken t ex now rr w r rr' w'"
    "fo_failed E t ex now ?rr w e rr' w' = fo_failed E t ex now rr w e rr' w'" for r rr' w' e
    by (simp_all add: fo_taken_def fo_failed_def scan_frame_def taken_def passed_def blocked_at_def)
  ultimately show ?thesis
    by (cases "scanNext E t ex now rr w") (simp add: fo_result_def split: sum.splits)
qed

lemma fo_failed_all:
  assumes "fo_failed E t ex now rr w e rr' w'"
    and "rr_hasActive rr \<Longrightarrow> passed E t ex now True rr w (rr_servers rr ! nat (rr_activeIdx rr))"
  shows "\<forall>r \<in> set (rr_servers rr). passed E t ex now True rr w r"
proof
  fix r assume "r \<in> set (rr_servers rr)"
  then obtain i where i: "i < length (rr_servers rr)" "r = rr_servers rr ! i"
    by (auto simp: in_set_conv_nth)
  show "passed E t ex now True rr w r"
  proof (cases "rr_hasActive rr \<and> int i = rr_activeIdx rr")
    case True
    then have "nat (rr_activeIdx rr) = i" by (metis nat_int)
    then show ?thesis using assms(2) True i by simp
  next
    case False
    then show ?thesis using assms(1) i by (auto simp: fo_failed_def)
  qed
qed

lemma tick_frame [simp]:
  "scan_frame now rr (w\<lparr>w_tick := n\<rparr>) r rr' w' = scan_frame now rr w r rr' w'"
  "taken t ex now a rr (w\<lparr>w_tick := n\<rparr>) rr' q = taken t ex now a rr w rr' q"
  "passed E t ex now a rr (w\<lparr>w_tick := n\<rparr>) q = passed E t ex now a rr w q"
  "servers_wf rr (w\<lparr>w_tick := n\<rparr>) = servers_wf rr w"
  by (simp_all add: scan_frame_def taken_def passed_def addr_of_def evolves_def refused_def servers_wf_def)

text \<open>
  The contract both strategies share. \<open>allow\<close> says whether the strategy may open a connection
  at that moment. A failed selection has passed over every server in \<open>S\<close>.
\<close>

definition select_taken ::
    "string \<Rightarrow> string set option \<Rightarrow> time \<Rightarrow> bool \<Rightarrow> 't RoundRobin \<Rightarrow> 't world \<Rightarrow> client_ref \<Rightarrow>
     't RoundRobin \<Rightarrow> 't world \<Rightarrow> bool" where
  "select_taken t ex now allow rr w r rr' w' \<longleftrightarrow>
     scan_frame now rr w (Some r) rr' w' \<and> pool_wf rr' w' \<and> r \<in> set (rr_servers rr) \<and>
     taken t ex now allow rr w rr' r"

definition select_failed ::
    "env \<Rightarrow> string \<Rightarrow> string set option \<Rightarrow> time \<Rightarrow> bool \<Rightarrow> client_ref set \<Rightarrow> 't RoundRobin \<Rightarrow>
     't world \<Rightarrow> 't RoundRobin \<Rightarrow> 't world \<Rightarrow> bool" where
  "select_failed E t ex now allow S rr w rr' w' \<longleftrightarrow>
     scan_frame now rr w None rr' w' \<and> pool_wf rr' w' \<and>
     (\<forall>r \<in> S. passed E t ex now allow rr w r)"

lemma scan_frame_cursor_wf:
  assumes "scan_frame now rr w r rr' w'" and "cursor_wf rr"
    and "if rr_hasActive rr' then rr_strategy rr = StrategyFailover \<and> 0 \<le> rr_activeIdx rr' \<and>
           rr_activeIdx rr' < int (length (rr_servers rr)) else rr_activeIdx rr' = 0"
  shows "cursor_wf rr'"
  using assms by (auto simp: scan_frame_def cursor_wf_def)

lemma getFailoverLocked_cases:
  assumes "ssh_library_ok E" and "pool_wf rr w" and "rr_servers rr \<noteq> []"
    and "rr_strategy rr = StrategyFailover"
    and "getFailoverLocked E t ex rr w = (res, rr', w')"
  shows "case res of
     Inr r \<Rightarrow> fo_taken t ex (time_now E (w_tick w)) rr w r rr' w'
   | Inl e \<Rightarrow> fo_failed E t ex (time_now E (w_tick w)) rr w e rr' w' \<and>
       (\<forall>r \<in> set (rr_servers rr). passed E t ex (time_now E (w_tick w)) True rr w r)"
proof -
  let ?now = "time_now E (w_tick w)" and ?w0 = "w\<lparr>w_tick := Suc (w_tick w)\<rparr>"
  have wf: "servers_wf rr ?w0" and cur: "cursor_wf rr"
    using assms(2) by (simp_all add: pool_wf_def)
  show ?thesis
  proof (cases "rr_hasActive rr")
    case False
    then have "scanNext E t ex ?now rr ?w0 = (res, rr', w')"
      using assms(5) by (simp add: getFailoverLocked_eq now_at_def)
    then have "fo_result E t ex ?now rr ?w0 (res, rr', w')"
      using scanNext_result [OF assms(1) wf assms(3)] False by metis
    moreover have "fo_taken t ex ?now rr ?w0 r rr' w' = fo_taken t ex ?now rr w r rr' w'"
      "fo_failed E t ex ?now rr ?w0 e rr' w' = fo_failed E t ex ?now rr w e rr' w'" for r e
      by (simp_all add: fo_taken_def fo_failed_def)
    ultimately show ?thesis
      using False fo_failed_all [of E t ex ?now rr w]
      by (auto simp: fo_result_def split: sum.splits)
  next
    case True
    let ?r = "rr_servers rr ! nat (rr_activeIdx rr)"
    have bounds: "0 \<le> rr_activeIdx rr" "rr_activeIdx rr < int (length (rr_servers rr))"
      using cur True by (simp_all add: cursor_wf_def)
    then have r: "?r \<in> set (rr_servers rr)" by simp
    obtain b rr1 w1 where tr: "try_client E t ex ?now True ?r rr ?w0 = (b, rr1, w1)"
      by (cases "try_client E t ex ?now True ?r rr ?w0")
    note fr = try_client_scan_frame [OF assms(1) wf r tr]
    show ?thesis
    proof (cases b)
      case True
      then have "res = Inr ?r" "rr' = rr1" "w' = w1"
        using assms(5) \<open>rr_hasActive rr\<close> bounds tr
        by (simp_all add: getFailoverLocked_eq now_at_def Let_def)
      moreover have "taken t ex ?now True rr ?w0 rr1 ?r"
        using try_client_taken [OF assms(1) servers_wfD [OF wf r]] tr True by (auto simp: taken_def)
      ultimately show ?thesis
        using fr True bounds \<open>rr_hasActive rr\<close> by (simp add: fo_taken_def)
    next
      case False
      have f1: "scan_frame ?now rr w None rr1 w1" using fr(1) False by simp
      have "scanNext E t ex ?now rr1 w1 = (res, rr', w')"
        using assms(5) \<open>rr_hasActive rr\<close> bounds tr False
        by (simp add: getFailoverLocked_eq now_at_def Let_def)
      moreover have "rr_servers rr1 \<noteq> []" using f1 assms(3) by (simp add: scan_frame_def)
      ultimately have res: "fo_result E t ex ?now rr1 w1 (res, rr', w')"
        using scanNext_result [OF assms(1) fr(5)] fr(3) bounds by metis
      have act: "passed E t ex ?now True rr w ?r"
        using try_client_passed [OF assms(1) servers_wfD [OF wf r]] tr False by simp
      have srv: "rr_servers rr1 = rr_servers rr" using f1 by (simp add: scan_frame_def)
      have tk: "fo_taken t ex ?now rr1 w1 r rr' w' \<Longrightarrow> fo_taken t ex ?now rr w r rr' w'" for r
        using scan_frame_trans [OF f1] scan_frame_taken [OF f1] srv by (auto simp: fo_taken_def)
      have fl: "fo_failed E t ex ?now rr1 w1 e rr' w' \<Longrightarrow> fo_failed E t ex ?now rr w e rr' w'" for e
        using scan_frame_trans [OF f1] scan_frame_passed [OF f1] srv fr(2,3)
        by (auto simp: fo_failed_def)
      show ?thesis
      proof (cases res)
        case (Inl e)
        with res have "fo_failed E t ex ?now rr1 w1 e rr' w'" by (simp add: fo_result_def)
        then have "fo_failed E t ex ?now rr w e rr' w'" by (rule fl)
        from this fo_failed_all [OF this act] Inl show ?thesis by simp
      next
        case (Inr r)
        with res have "fo_taken t ex ?now rr1 w1 r rr' w'" by (simp add: fo_result_def)
        then have "fo_taken t ex ?now rr w r rr' w'" by (rule tk)
        with Inr show ?thesis by simp
      qed
    qed
  qed
qed

lemma getFailoverLocked_contract:
  assumes "ssh_library_ok E" and "pool_wf rr w" and "rr_servers rr \<noteq> []"
    and "rr_strategy rr = StrategyFailover"
    and "getFailoverLocked E t ex rr w = (res, rr', w')"
  shows "case res of
     Inr r \<Rightarrow> select_taken t ex (time_now E (w_tick w)) True rr w r rr' w'
   | Inl e \<Rightarrow> select_failed E t ex (time_now E (w_tick w)) True (set (rr_servers rr)) rr w rr' w'"
proof -
  have cur: "cursor_wf rr" using assms(2) by (simp add: pool_wf_def)
  note c = getFailoverLocked_cases [OF assms]
  show ?thesis
  proof (cases res)
    case (Inl e)
    with c have f: "fo_failed E t ex (time_now E (w_tick w)) rr w e rr' w'"
      and p: "\<forall>r \<in> set (rr_servers rr). passed E t ex (time_now E (w_tick w)) True rr w r"
      by simp_all
    from f have "cursor_wf rr'"
      using scan_frame_cursor_wf [OF _ cur] by (auto simp: fo_failed_def)
    with f p Inl show ?thesis by (simp add: select_failed_def fo_failed_def pool_wf_def)
  next
    case (Inr r)
    with c have f: "fo_taken t ex (time_now E (w_tick w)) rr w r rr' w'" by simp
    then have "cursor_wf rr'"
      using scan_frame_cursor_wf [OF _ cur] assms(4) by (auto simp: fo_taken_def)
    moreover have "r \<in> set (rr_servers rr)"
      using f by (auto simp: fo_taken_def nat_less_iff intro!: nth_mem)
    ultimately show ?thesis using f Inr by (simp add: select_taken_def fo_taken_def pool_wf_def)
  qed
qed

text \<open>Load balancing: how many servers are up, and which ones the loop visits.\<close>

definition up_count :: "'t RoundRobin \<Rightarrow> 't world \<Rightarrow> int" where
  "up_count rr w = int (length (filter (up w) (rr_servers rr)))"

definition lb_visited :: "'t RoundRobin \<Rightarrow> client_ref set" where
  "lb_visited rr = lb_client rr (rr_index rr) ` {0..<length (rr_servers rr)}"

lemma lb_client_in: "rr_servers rr \<noteq> [] \<Longrightarrow> lb_client rr si k \<in> set (rr_servers rr)"
  by (simp add: lb_client_def)

lemma lb_client_no_wrap:
  assumes "unat si + k < 2 ^ 32"
  shows "lb_client rr si k = rr_servers rr ! ((unat si + k) mod length (rr_servers rr))"
proof -
  have "unat (si + word_of_nat k) = unat si + k"
    using assms by (simp add: unat_word_ariths unat_of_nat)
  then show ?thesis by (simp add: lb_client_def)
qed

lemma lb_visited_all:
  assumes "unat (rr_index rr) + length (rr_servers rr) \<le> 2 ^ 32"
  shows "lb_visited rr = set (rr_servers rr)"
proof (cases "rr_servers rr = []")
  case True
  then show ?thesis by (simp add: lb_visited_def)
next
  case False
  show ?thesis
  proof
    show "lb_visited rr \<subseteq> set (rr_servers rr)"
      using lb_client_in [OF False] by (auto simp: lb_visited_def)
    show "set (rr_servers rr) \<subseteq> lb_visited rr"
    proof
      fix r assume "r \<in> set (rr_servers rr)"
      then obtain i where i: "i < length (rr_servers rr)" "r = rr_servers rr ! i"
        by (auto simp: in_set_conv_nth)
      have "int i \<in> (\<lambda>k. (int (unat (rr_index rr)) + int k) mod int (length (rr_servers rr))) `
          {0..<length (rr_servers rr)}"
        using cover_indices [of "int (unat (rr_index rr))" "length (rr_servers rr)"] i False by simp
      then obtain k where k: "k < length (rr_servers rr)"
        and "int i = (int (unat (rr_index rr)) + int k) mod int (length (rr_servers rr))"
        by auto
      then have "(unat (rr_index rr) + k) mod length (rr_servers rr) = i"
        by (metis nat_int of_nat_add of_nat_mod)
      moreover have "unat (rr_index rr) + k < 2 ^ 32" using assms k by simp
      ultimately have "lb_client rr (rr_index rr) k = r" using i by (simp add: lb_client_no_wrap)
      then show "r \<in> lb_visited rr" using k by (auto simp: lb_visited_def)
    qed
  qed
qed

lemma getLoadBalanceLocked_cases:
  assumes "ssh_library_ok E" and "pool_wf rr w" and "rr_servers rr \<noteq> []"
    and "getLoadBalanceLocked E t ex rr w = (res, rr', w')"
  shows "rr_index rr' = rr_index rr + 1 \<and>
    (case res of
       Inr r \<Rightarrow> select_taken t ex (time_now E (w_tick w)) (up_count rr w < rr_maxActive rr) rr w r rr' w' \<and>
         (\<exists>i < length (rr_servers rr). r = lb_client rr (rr_index rr) i \<and>
            (\<forall>j < i. passed E t ex (time_now E (w_tick w)) (up_count rr w < rr_maxActive rr) rr w
               (lb_client rr (rr_index rr) j)))
     | Inl e \<Rightarrow> e = no_available \<and> select_failed E t ex (time_now E (w_tick w))
         (up_count rr w < rr_maxActive rr) (lb_visited rr) rr w rr' w')"
proof -
  let ?now = "time_now E (w_tick w)" and ?a = "up_count rr w < rr_maxActive rr"
  let ?rr = "rr\<lparr>rr_index := rr_index rr + 1\<rparr>" and ?w = "w\<lparr>w_tick := Suc (w_tick w)\<rparr>"
  let ?rs = "map (lb_client rr (rr_index rr)) [0..<length (rr_servers rr)]"
  have wf: "servers_wf rr w" and cur: "cursor_wf rr" using assms(2) by (simp_all add: pool_wf_def)
  obtain p rr1 w1 where s: "scan E t ex ?now ?a ?rs ?rr ?w = (p, rr1, w1)"
    by (cases "scan E t ex ?now ?a ?rs ?rr ?w")
  have lbc: "lb_client ?rr = lb_client rr" by (intro ext) (simp add: lb_client_def)
  have res: "(res, rr', w') = (case p of None \<Rightarrow> (Inl no_available, rr1, w1)
      | Some i \<Rightarrow> (Inr (lb_client rr (rr_index rr) ([0..<length (rr_servers rr)] ! i)), rr1, w1))"
    using assms(4) s
    by (simp add: getLoadBalanceLocked_def connectedCountLocked_wf [OF wf] now_at_def Let_def
        lb_scan_eq lbc up_count_def split: option.splits)
  have rr: "scan_frame ?now ?rr ?w r rr2 w2 = scan_frame ?now rr w r rr2 w2"
    "taken t ex ?now ?a ?rr ?w rr2 q = taken t ex ?now ?a rr w rr2 q"
    "passed E t ex ?now ?a ?rr ?w q = passed E t ex ?now ?a rr w q" for r rr2 w2 q
    by (simp_all add: scan_frame_def taken_def passed_def blocked_at_def addr_of_def evolves_def refused_def)
  have sub: "set ?rs \<subseteq> set (rr_servers ?rr)" using lb_client_in [OF assms(3)] by auto
  have wf1: "servers_wf ?rr ?w" using wf by (simp add: servers_wf_def)
  note c = scan_correct [OF assms(1) wf1 sub s, unfolded rr]
  have cur1: "cursor_wf rr1"
    using scan_frame_cursor_wf [of ?now rr w _ rr1 w1] c cur
    by (auto simp: same_cursor_def cursor_wf_def split: if_splits)
  have idx: "rr_index rr1 = rr_index rr + 1" using c by (simp add: same_cursor_def)
  show ?thesis
  proof (cases p)
    case None
    then show ?thesis
      using c cur1 idx res by (simp add: select_failed_def pool_wf_def lb_visited_def)
  next
    case (Some i)
    then have i: "i < length (rr_servers rr)" using c by simp
    then have "\<forall>j < i. passed E t ex ?now ?a rr w (lb_client rr (rr_index rr) j)"
      using c Some by auto
    then show ?thesis
      using c cur1 idx res Some i lb_client_in [OF assms(3)]
      by (auto simp: select_taken_def pool_wf_def)
  qed
qed

section \<open>Selection as an interface\<close>

text \<open>
  What the dialling code may rely on. A state \<open>p\<close> has members with addresses; a selection
  returns a member whose address is not excluded and which is ready, and changes neither the
  members nor their addresses.
\<close>

locale selector =
  fixes select :: "string \<Rightarrow> string set option \<Rightarrow> 'p \<Rightarrow> (go_error + 'c) \<times> 'p"
    and inv :: "'p \<Rightarrow> bool" and members :: "'p \<Rightarrow> 'c set"
    and addr :: "'p \<Rightarrow> 'c \<Rightarrow> string" and ready :: "'p \<Rightarrow> 'c \<Rightarrow> bool"
  assumes select_inv: "inv p \<Longrightarrow> select t ex p = (res, p') \<Longrightarrow> inv p'"
    and select_members: "inv p \<Longrightarrow> select t ex p = (res, p') \<Longrightarrow> members p' = members p"
    and select_addr: "inv p \<Longrightarrow> select t ex p = (res, p') \<Longrightarrow> addr p' c = addr p c"
    and select_ok: "inv p \<Longrightarrow> select t ex p = (Inr c, p') \<Longrightarrow>
          c \<in> members p \<and> \<not> excluded ex (addr p c) \<and> ready p' c"
    and members_finite: "inv p \<Longrightarrow> finite (members p)"
begin

definition remaining :: "'p \<Rightarrow> string set \<Rightarrow> nat" where
  "remaining p S = card (addr p ` members p - S)"

lemma select_remaining:
  assumes "inv p" and "select t (Some S) p = (Inr c, p')"
  shows "remaining p' (insert (addr p c) S) < remaining p S"
proof -
  have "addr p' ` members p' = addr p ` members p"
    using select_members [OF assms] select_addr [OF assms] by simp
  moreover have "addr p c \<in> addr p ` members p - S"
    using select_ok [OF assms] by (simp add: excluded_def)
  moreover have "finite (addr p ` members p - S)" using members_finite [OF assms(1)] by simp
  ultimately show ?thesis
    unfolding remaining_def by (metis Diff_insert card_Diff1_less)
qed

lemma select_exhausted:
  assumes "inv p" and "addr p ` members p \<subseteq> S" and "select t (Some S) p = (res, p')"
  shows "\<exists>e. res = Inl e"
proof (cases res)
  case (Inr c)
  then have "c \<in> members p \<and> addr p c \<notin> S"
    using select_ok [OF assms(1), of t "Some S" c p'] assms(3) by (simp add: excluded_def)
  with assms(2) show ?thesis by auto
qed simp

end

text \<open>When \<open>GetForTarget\<close> may open a connection, and which servers it considers.\<close>

definition may_connect :: "'t RoundRobin \<Rightarrow> 't world \<Rightarrow> bool" where
  "may_connect rr w \<longleftrightarrow>
     rr_strategy rr = StrategyFailover \<or> up_count rr w < rr_maxActive rr"

definition considered :: "'t RoundRobin \<Rightarrow> client_ref set" where
  "considered rr =
     (if rr_strategy rr = StrategyFailover then set (rr_servers rr) else lb_visited rr)"

lemma GetForTarget_cases:
  assumes "ssh_library_ok E" and "pool_wf rr w" and "GetForTarget E t ex rr w = (res, rr', w')"
  shows "case res of
     Inr r \<Rightarrow> select_taken t ex (time_now E (w_tick w)) (may_connect rr w) rr w r rr' w'
   | Inl e \<Rightarrow> select_failed E t ex (time_now E (w_tick w)) (may_connect rr w) (considered rr) rr w rr' w'"
proof -
  consider (empty) "rr_servers rr = []"
    | (fo) "rr_servers rr \<noteq> []" "rr_strategy rr = StrategyFailover"
    | (lb) "rr_servers rr \<noteq> []" "rr_strategy rr \<noteq> StrategyFailover" by blast
  then show ?thesis
  proof cases
    case empty
    then show ?thesis
      using assms(2,3) by (auto simp: GetForTarget_def select_failed_def considered_def lb_visited_def)
  next
    case fo
    then have "may_connect rr w = True" and "considered rr = set (rr_servers rr)"
      by (simp_all add: may_connect_def considered_def)
    then show ?thesis
      using getFailoverLocked_contract [OF assms(1,2) fo, of t ex res rr' w'] assms(3) fo
      by (cases res) (simp_all add: GetForTarget_def)
  next
    case lb
    then have "may_connect rr w = (up_count rr w < rr_maxActive rr)"
      and "considered rr = lb_visited rr"
      by (simp_all add: may_connect_def considered_def)
    then show ?thesis
      using getLoadBalanceLocked_cases [OF assms(1,2) lb(1), of t ex res rr' w'] assms(3) lb
      by (auto simp: GetForTarget_def split: sum.splits)
  qed
qed

lemma GetForTarget_frame:
  assumes "ssh_library_ok E" and "pool_wf rr w" and "GetForTarget E t ex rr w = (res, rr', w')"
  shows "pool_wf rr' w'"
    and "scan_frame (time_now E (w_tick w)) rr w (case res of Inl _ \<Rightarrow> None | Inr r \<Rightarrow> Some r) rr' w'"
  using GetForTarget_cases [OF assms]
  by (auto simp: select_taken_def select_failed_def split: sum.splits)

type_synonym 't pool = "'t RoundRobin \<times> 't world"

definition select_on ::
    "env \<Rightarrow> string \<Rightarrow> string set option \<Rightarrow> 't pool \<Rightarrow> (go_error + client_ref) \<times> 't pool" where
  "select_on E t ex p =
     (case GetForTarget E t ex (fst p) (snd p) of (res, rr', w') \<Rightarrow> (res, (rr', w')))"

definition pool_inv_of :: "env \<Rightarrow> 't pool \<Rightarrow> bool" where
  "pool_inv_of E p \<longleftrightarrow> ssh_library_ok E \<and> pool_wf (fst p) (snd p)"

definition pool_members :: "'t pool \<Rightarrow> client_ref set" where
  "pool_members p = set (rr_servers (fst p))"

lemma select_onE:
  assumes "pool_inv_of E p" and "select_on E t ex p = (res, p')"
  shows "pool_inv_of E p'" and "pool_members p' = pool_members p"
    and "addr_of (snd p') c = addr_of (snd p) c"
    and "res = Inr c \<Longrightarrow> c \<in> pool_members p \<and> \<not> excluded ex (addr_of (snd p) c) \<and> up (snd p') c"
proof -
  obtain rr w rr' w' where p: "p = (rr, w)" "p' = (rr', w')"
    and g: "GetForTarget E t ex rr w = (res, rr', w')"
    using assms(2) by (cases p, cases p') (auto simp: select_on_def split: prod.splits)
  have ok: "ssh_library_ok E" "pool_wf rr w" using assms(1) by (simp_all add: pool_inv_of_def p)
  note fr = GetForTarget_frame [OF ok g] and c = GetForTarget_cases [OF ok g]
  show "pool_inv_of E p'" using fr(1) ok(1) by (simp add: pool_inv_of_def p)
  show "pool_members p' = pool_members p"
    using fr(2) by (simp add: pool_members_def scan_frame_def p)
  show "addr_of (snd p') c = addr_of (snd p) c" using scan_frame_addr [OF fr(2)] by (simp add: p)
  show "res = Inr c \<Longrightarrow> c \<in> pool_members p \<and> \<not> excluded ex (addr_of (snd p) c) \<and> up (snd p') c"
    using c by (auto simp: select_taken_def taken_def scan_frame_def pool_members_def p)
qed

interpretation pool: selector "select_on E" "pool_inv_of E" pool_members "\<lambda>p. addr_of (snd p)"
  "\<lambda>p. up (snd p)" for E
proof (unfold_locales, goal_cases)
  case 1
  then show ?case by (rule select_onE(1))
next
  case 2
  then show ?case by (rule select_onE(2))
next
  case 3
  then show ?case by (rule select_onE(3))
next
  case (4 p t ex c p')
  then show ?case using select_onE(4) [of E p t ex "Inr c" p' c] by simp
next
  case (5 p)
  then show ?case by (simp add: pool_members_def)
qed

section \<open>Properties\<close>

text \<open>Sample pools for the witnesses: three hosts, of which the third is connected.\<close>

definition abc :: "(string \<times> bool) list" where
  "abc = [(''a'', False), (''b'', False), (''c'', True)]"

lemma abc_simps [simp]:
  "length abc = 3" "abc ! 0 = (''a'', False)" "abc ! Suc 0 = (''b'', False)" "abc ! 2 = (''c'', True)"
  by (simp_all add: abc_def)

text \<open>C1: A client that \<open>GetForTarget\<close> returns is a server of the pool, its address is not
  excluded, the target is not blocked for it, it is connected afterwards, and it was either
  connected before or the strategy allowed a new connection. The servers and the invariant of
  the pool are kept, and no other client's connection changes.\<close>

theorem GetForTarget_sound:
  assumes "ssh_library_ok E" and "pool_wf rr w"
    and "GetForTarget E t ex rr w = (Inr r, rr', w')"
  shows "r \<in> set (rr_servers rr) \<and> \<not> excluded ex (addr_of w r) \<and>
    \<not> blocked_at rr (addr_of w r) t (time_now E (w_tick w)) \<and>
    (up w r \<or> may_connect rr w) \<and>
    rr_servers rr' = rr_servers rr \<and> pool_wf rr' w' \<and> (\<forall>q. up w' q \<longleftrightarrow> up w q \<or> q = r)"
  using GetForTarget_cases [OF assms] by (auto simp: select_taken_def taken_def scan_frame_def)

lemma failover_abc:
  "fst (GetForTarget (sample_env []) ''x:80'' (Some {''a:22''}) (sample_pool ''failover'' 1 abc)
     (sample_world abc ())) = Inr 2"
  by code_simp

theorem GetForTarget_sound_witness:
  "\<not> excluded (Some {''a:22''}) ''c:22'' \<and>
   up (snd (snd (GetForTarget (sample_env []) ''x:80'' (Some {''a:22''})
     (sample_pool ''failover'' 1 abc) (sample_world abc ())))) 2"
  using GetForTarget_sound [OF sample_env_ok sample_pool_wf
      triple [of "GetForTarget (sample_env []) ''x:80'' (Some {''a:22''}) (sample_pool ''failover'' 1 abc)
         (sample_world abc ())", unfolded failover_abc]]
  by simp

text \<open>C2: In failover mode a selection fails only when every server was excluded, blocked for
  the target, or down and refusing a connection; the pool then has no active server.\<close>

theorem failover_complete:
  assumes "ssh_library_ok E" and "pool_wf rr w" and "rr_strategy rr = StrategyFailover"
    and "rr_servers rr \<noteq> []" and "GetForTarget E t ex rr w = (Inl e, rr', w')"
  shows "e = no_available \<and> \<not> rr_hasActive rr' \<and> rr_activeIdx rr' = 0 \<and>
    (\<forall>r \<in> set (rr_servers rr). excluded ex (addr_of w r) \<or>
       blocked_at rr (addr_of w r) t (time_now E (w_tick w)) \<or> (\<not> up w r \<and> refused E w r))"
proof -
  have "getFailoverLocked E t ex rr w = (Inl e, rr', w')"
    using assms(3-5) by (simp add: GetForTarget_def)
  from getFailoverLocked_cases [OF assms(1,2,4,3) this]
  show ?thesis by (auto simp: fo_failed_def passed_def)
qed

lemma failover_none:
  "fst (GetForTarget (sample_env []) ''x:80'' (Some {''c:22''}) (sample_active 2 abc)
     (sample_world abc ())) = Inl no_available"
  by code_simp

theorem failover_complete_witness:
  "refused (sample_env []) (sample_world abc ()) 0 \<and>
   \<not> rr_hasActive (fst (snd (GetForTarget (sample_env []) ''x:80'' (Some {''c:22''})
       (sample_active 2 abc) (sample_world abc ()))))"
proof -
  note c = failover_complete [OF sample_env_ok sample_active_wf _ _
      triple [of "GetForTarget (sample_env []) ''x:80'' (Some {''c:22''}) (sample_active 2 abc)
         (sample_world abc ())", unfolded failover_none], simplified]
  have "0 \<in> {0..<length abc}" by simp
  with c show ?thesis by (force simp: excluded_def blocked_at_def)
qed

text \<open>In failover mode the active server is returned as long as it is connected, not
  excluded and not blocked for the target: the cursor does not move and only this server's
  selection count grows.\<close>

theorem failover_sticky:
  assumes "pool_wf rr w" and "rr_hasActive rr" and "r = rr_servers rr ! nat (rr_activeIdx rr)"
    and "\<not> excluded ex (addr_of w r)" and "\<not> blocked_at rr (addr_of w r) t (time_now E (w_tick w))"
    and "up w r" and "GetForTarget E t ex rr w = (res, rr', w')"
  shows "res = Inr r \<and> rr_hasActive rr' \<and> rr_activeIdx rr' = rr_activeIdx rr \<and>
    rr_index rr' = rr_index rr \<and>
    (\<forall>q. c_selectedCount (w_store w' q) =
         c_selectedCount (w_store w q) + (if q = r then 1 else 0))"
proof -
  let ?w0 = "w\<lparr>w_tick := Suc (w_tick w)\<rparr>"
  have cur: "rr_strategy rr = StrategyFailover" "0 \<le> rr_activeIdx rr"
    "rr_activeIdx rr < int (length (rr_servers rr))"
    using assms(1,2) by (simp_all add: pool_wf_def cursor_wf_def)
  have wf: "client_wf (w_store w r)"
    using assms(1,3) cur by (auto simp: pool_wf_def intro!: servers_wfD)
  have ex0: "\<not> excluded ex (addr_of ?w0 r)" using assms(4) by (simp add: addr_of_def)
  obtain b rr1 where b: "isTargetBlockedLocked (Some (w_store w r)) t (time_now E (w_tick w)) rr = (b, rr1)"
    by (cases "isTargetBlockedLocked (Some (w_store w r)) t (time_now E (w_tick w)) rr")
  then have nb: "\<not> b" using isTargetBlockedLocked_cases(1) [OF b] assms(5) by (simp add: addr_of_def)
  have tr: "try_client E t ex (time_now E (w_tick w)) True r rr ?w0 =
      (True, rr1, snd (MarkSelected_at E r ?w0))"
    using b nb ex0 assms(6) wf by (simp add: try_client_def)
  have "rr_servers rr \<noteq> []" using cur by auto
  then have "res = Inr r" "rr' = rr1" "w' = snd (MarkSelected_at E r ?w0)"
    using assms(2,7) cur tr by (auto simp: GetForTarget_def getFailoverLocked_eq now_at_def
        Let_def assms(3) [symmetric])
  moreover have "c_selectedCount (w_store (snd (MarkSelected_at E r ?w0)) q) =
      c_selectedCount (w_store w q) + (if q = r then 1 else 0)" for q
    using MarkSelected_at_cases(4) [OF prod.collapse [symmetric], of E r ?w0 q] by simp
  ultimately show ?thesis using isTargetBlockedLocked_frame [OF b] assms(2) by simp
qed

theorem failover_sticky_witness:
  "fst (GetForTarget (sample_env []) ''x:80'' None (sample_active 2 abc) (sample_world abc ())) = Inr 2"
  using failover_sticky [of "sample_active 2 abc" "sample_world abc ()" 2 None "''x:80''" "sample_env []",
      OF sample_active_wf _ _ _ _ _ triple]
  by (simp add: excluded_def blocked_at_def)

lemma GetForTarget_loadbalance:
  assumes "ssh_library_ok E" and "pool_wf rr w" and "rr_strategy rr = StrategyLoadBalance"
    and "rr_servers rr \<noteq> []" and "GetForTarget E t ex rr w = (res, rr', w')"
  shows "rr_index rr' = rr_index rr + 1 \<and>
    (case res of
       Inr r \<Rightarrow> select_taken t ex (time_now E (w_tick w)) (up_count rr w < rr_maxActive rr) rr w r rr' w' \<and>
         (\<exists>i < length (rr_servers rr). r = lb_client rr (rr_index rr) i \<and>
            (\<forall>j < i. passed E t ex (time_now E (w_tick w)) (up_count rr w < rr_maxActive rr) rr w
               (lb_client rr (rr_index rr) j)))
     | Inl e \<Rightarrow> e = no_available \<and> select_failed E t ex (time_now E (w_tick w))
         (up_count rr w < rr_maxActive rr) (lb_visited rr) rr w rr' w')"
  by (rule getLoadBalanceLocked_cases [OF assms(1,2,4)]) (use assms(3-5) in \<open>simp add: GetForTarget_def\<close>)

lemma loadbalance_strategy [simp]: "normalizeStrategy ''loadbalance'' = StrategyLoadBalance"
  by code_simp


lemma loadbalance_abc:
  "fst (GetForTarget (sample_env []) '''' None (sample_pool ''loadbalance'' 1 abc)
     (sample_world abc ())) = Inr 2"
  by code_simp


text \<open>C5: In load balancing mode, away from the wrap of the index, a selection fails only when
  every server was excluded, blocked, or down with no connection possible: either the limit of
  active servers was reached or the connection was refused.\<close>

theorem loadbalance_complete:
  assumes "ssh_library_ok E" and "pool_wf rr w" and "rr_strategy rr = StrategyLoadBalance"
    and "rr_servers rr \<noteq> []" and "unat (rr_index rr) + length (rr_servers rr) \<le> 2 ^ 32"
    and "GetForTarget E t ex rr w = (Inl e, rr', w')"
  shows "e = no_available \<and>
    (\<forall>r \<in> set (rr_servers rr). excluded ex (addr_of w r) \<or>
       blocked_at rr (addr_of w r) t (time_now E (w_tick w)) \<or>
       (\<not> up w r \<and> (up_count rr w < rr_maxActive rr \<longrightarrow> refused E w r)))"
  using GetForTarget_loadbalance [OF assms(1-4,6)] lb_visited_all [OF assms(5)]
  by (auto simp: select_failed_def passed_def)

lemma loadbalance_none:
  "fst (GetForTarget (sample_env []) '''' (Some {''c:22''}) (sample_pool ''loadbalance'' 2 abc)
     (sample_world abc ())) = Inl no_available"
  by code_simp

lemma up_count_abc [simp]: "up_count (sample_pool s k abc) (sample_world abc ()) = 1"
proof -
  have "[0..<length abc] = [0, 1, 2]" by (simp add: upt_conv_Cons)
  then show ?thesis by (simp add: up_count_def)
qed

theorem loadbalance_complete_witness:
  "refused (sample_env []) (sample_world abc ()) 1"
proof -
  note c = loadbalance_complete [OF sample_env_ok sample_pool_wf _ _ _
      triple [of "GetForTarget (sample_env []) '''' (Some {''c:22''}) (sample_pool ''loadbalance'' 2 abc)
         (sample_world abc ())", unfolded loadbalance_none], simplified]
  have "1 \<in> {0..<length abc}" by simp
  with c show ?thesis by (force simp: excluded_def blocked_at_def sample_pool_def NewRoundRobin_def)
qed

text \<open>C7: Load balancing never opens a connection beyond the limit: over a pool without
  repeated servers the number of connected servers after a selection is at most the limit or
  what it was before.\<close>

theorem loadbalance_capacity:
  assumes "ssh_library_ok E" and "pool_wf rr w" and "rr_strategy rr = StrategyLoadBalance"
    and "distinct (rr_servers rr)" and "GetForTarget E t ex rr w = (res, rr', w')"
  shows "up_count rr' w' \<le> max (up_count rr w) (rr_maxActive rr)"
proof (cases res)
  case (Inl e)
  have "rr_servers rr' = rr_servers rr" and "\<And>q. up w' q = up w q"
    using GetForTarget_frame(2) [OF assms(1,2,5)] Inl by (simp_all add: scan_frame_def)
  then have "rr_servers rr' = rr_servers rr" and "up w' = up w" by auto
  then show ?thesis by (simp add: up_count_def)
next
  case (Inr r)
  then have "rr_servers rr \<noteq> []" using assms(5) by (auto simp: GetForTarget_def)
  note c = GetForTarget_loadbalance [OF assms(1-3) this assms(5)]
  have srv: "rr_servers rr' = rr_servers rr" and upq: "\<And>q. up w' q \<longleftrightarrow> up w q \<or> q = r"
    and r: "up w r \<or> up_count rr w < rr_maxActive rr"
    using c Inr by (auto simp: select_taken_def scan_frame_def taken_def)
  have count: "up_count rr v = int (card {q \<in> set (rr_servers rr). up v q})" for v :: "'a world"
    using assms(4) distinct_card [of "filter (up v) (rr_servers rr)"] by (simp add: up_count_def)
  have "{q \<in> set (rr_servers rr). up w' q} \<subseteq> insert r {q \<in> set (rr_servers rr). up w q}"
    using upq by auto
  then have "card {q \<in> set (rr_servers rr). up w' q} \<le> card (insert r {q \<in> set (rr_servers rr). up w q})"
    by (intro card_mono) simp_all
  also have "\<dots> \<le> Suc (card {q \<in> set (rr_servers rr). up w q})"
    by (rule card_insert_le_m1) simp_all
  finally have "up_count rr w' \<le> up_count rr w + 1" by (simp add: count)
  moreover have "up_count rr w' = up_count rr w" if "up w r"
  proof -
    have "up w' = up w" using upq that by auto
    then show ?thesis by (simp add: up_count_def)
  qed
  moreover have "up_count rr' w' = up_count rr w'" by (simp add: up_count_def srv)
  ultimately show ?thesis using r by auto
qed

theorem loadbalance_capacity_witness:
  "up_count (fst (snd (GetForTarget (sample_env [''a:22'']) '''' None (sample_pool ''loadbalance'' 1 abc)
       (sample_world abc ()))))
     (snd (snd (GetForTarget (sample_env [''a:22'']) '''' None (sample_pool ''loadbalance'' 1 abc)
       (sample_world abc ())))) \<le> 1"
  using loadbalance_capacity [OF sample_env_ok sample_pool_wf _ _ triple,
      of "''loadbalance''" 1 abc "[''a:22'']" "''''" None "()"]
  by simp

text \<open>C8: When the 32-bit index wraps between the servers of a pool of three, one server is
  not tried: the selection reports that no server is available although the third is
  connected, not excluded and not blocked.\<close>

theorem loadbalance_index_wrap:
  assumes "ssh_library_ok E" and "pool_wf rr w" and "rr_strategy rr = StrategyLoadBalance"
    and "rr_servers rr = [a, b, c]" and "rr_index rr = 2 ^ 32 - 1" and "rr_maxActive rr = 1"
    and "\<not> up w a" and "\<not> up w b" and "up w c"
  shows "fst (GetForTarget E '''' None rr w) = Inl no_available"
proof -
  obtain res rr' w' where g: "GetForTarget E '''' None rr w = (res, rr', w')"
    by (metis prod_cases3)
  have "rr_servers rr \<noteq> []" using assms(4) by simp
  note c = GetForTarget_loadbalance [OF assms(1-3) this g]
  have count: "up_count rr w = 1" using assms(4,7-9) by (simp add: up_count_def)
  show ?thesis
  proof (cases res)
    case (Inl e)
    then show ?thesis using c g by simp
  next
    case (Inr r)
    with c have "select_taken '''' None (time_now E (w_tick w)) (up_count rr w < rr_maxActive rr)
        rr w r rr' w'" and "\<exists>i < length (rr_servers rr). r = lb_client rr (rr_index rr) i" by auto
    then have "up w r" and "\<exists>i < length (rr_servers rr). r = lb_client rr (rr_index rr) i"
      using assms(6) count by (simp_all add: select_taken_def taken_def)
    moreover have "length (rr_servers rr) = 3" using assms(4) by simp
    ultimately obtain i where "i < 3" "r = lb_client rr (rr_index rr) i" by metis
    then have "i \<in> {0, 1, 2}" and i: "r = [a, b, c] ! (unat ((2 ^ 32 - 1 :: 32 word) + word_of_nat i) mod 3)"
      by (auto simp: lb_client_def assms(4,5))
    then have "r = a \<or> r = b" by auto
    with \<open>up w r\<close> assms(7,8) show ?thesis by auto
  qed
qed

theorem loadbalance_index_wrap_witness:
  "fst (GetForTarget (sample_env []) '''' None
     ((sample_pool ''loadbalance'' 1 abc)\<lparr>rr_index := 2 ^ 32 - 1\<rparr>) (sample_world abc ())) =
   Inl no_available"
proof -
  have "pool_wf ((sample_pool ''loadbalance'' 1 abc)\<lparr>rr_index := 2 ^ 32 - 1\<rparr>) (sample_world abc ())"
    using sample_pool_wf [of "''loadbalance''" 1 abc "()"]
    by (simp add: pool_wf_def cursor_wf_def servers_wf_def)
  from loadbalance_index_wrap [OF sample_env_ok this, of 0 1 2 "[]"]
  show ?thesis by (simp add: upt_conv_Cons)
qed

text \<open>\<open>n\<close> calls of \<open>Get\<close> in a row, with their results.\<close>

primrec get_many ::
    "env \<Rightarrow> nat \<Rightarrow> 't RoundRobin \<Rightarrow> 't world \<Rightarrow> (go_error + client_ref) list" where
  "get_many E 0 rr w = []"
| "get_many E (Suc n) rr w = (case Get E rr w of (res, rr1, w1) \<Rightarrow> res # get_many E n rr1 w1)"

lemma Get_rotates:
  assumes "ssh_library_ok E" and "pool_wf rr w" and "rr_strategy rr = StrategyLoadBalance"
    and "rr_servers rr \<noteq> []" and "\<forall>r \<in> set (rr_servers rr). up w r"
    and "Get E rr w = (res, rr', w')"
  shows "res = Inr (rr_servers rr ! (unat (rr_index rr) mod length (rr_servers rr)))"
    and "rr_index rr' = rr_index rr + 1" and "pool_wf rr' w'" and "rr_servers rr' = rr_servers rr"
    and "rr_strategy rr' = rr_strategy rr" and "\<forall>r \<in> set (rr_servers rr'). up w' r"
proof -
  have g: "GetForTarget E '''' None rr w = (res, rr', w')" using assms(6) by (simp add: Get_def)
  note c = GetForTarget_loadbalance [OF assms(1-4) g] and fr = GetForTarget_frame [OF assms(1,2) g]
  have np: "\<not> passed E '''' None now a rr w (lb_client rr si j)" for now a si j
    using assms(5) lb_client_in [OF assms(4), of si j] by (simp add: passed_def excluded_def blocked_at_def)
  have lb0: "lb_client rr (rr_index rr) 0 = rr_servers rr ! (unat (rr_index rr) mod length (rr_servers rr))"
    by (simp add: lb_client_def)
  show "res = Inr (rr_servers rr ! (unat (rr_index rr) mod length (rr_servers rr)))"
  proof (cases res)
    case (Inl e)
    then have "\<forall>r \<in> lb_visited rr. passed E '''' None (time_now E (w_tick w)) (up_count rr w < rr_maxActive rr) rr w r"
      using c by (simp add: select_failed_def)
    then show ?thesis using np assms(4) by (auto simp: lb_visited_def)
  next
    case (Inr r)
    then obtain i where "r = lb_client rr (rr_index rr) i"
      "\<forall>j < i. passed E '''' None (time_now E (w_tick w)) (up_count rr w < rr_maxActive rr) rr w
         (lb_client rr (rr_index rr) j)" using c by auto
    then have "r = lb_client rr (rr_index rr) 0" using np by (cases i) auto
    then show ?thesis using lb0 Inr by simp
  qed
  show "rr_index rr' = rr_index rr + 1" using c by simp
  show "pool_wf rr' w'" by (rule fr(1))
  show "rr_servers rr' = rr_servers rr" "rr_strategy rr' = rr_strategy rr"
    using fr(2) by (simp_all add: scan_frame_def)
  show "\<forall>r \<in> set (rr_servers rr'). up w' r" using fr(2) assms(5) by (simp add: scan_frame_def)
qed

text \<open>C6: Load balancing is fair: when all servers are connected, consecutive selections go
  round the ring, one server each, as long as the 32-bit index does not wrap.\<close>

theorem loadbalance_rotation:
  assumes "ssh_library_ok E" and "pool_wf rr w" and "rr_strategy rr = StrategyLoadBalance"
    and "rr_servers rr \<noteq> []" and "\<forall>r \<in> set (rr_servers rr). up w r"
    and "unat (rr_index rr) + n \<le> 2 ^ 32"
  shows "get_many E n rr w =
    map (\<lambda>k. Inr (rr_servers rr ! ((unat (rr_index rr) + k) mod length (rr_servers rr)))) [0..<n]"
  using assms(2-6)
proof (induction n arbitrary: rr w)
  case (Suc n)
  obtain res rr1 w1 where g: "Get E rr w = (res, rr1, w1)" by (metis prod_cases3)
  note s = Get_rotates [OF assms(1) Suc.prems(1-4) g]
  show ?case
  proof (cases n)
    case 0
    then show ?thesis using g s(1) by simp
  next
    case (Suc m)
    then have idx: "unat (rr_index rr1) = Suc (unat (rr_index rr))"
      using s(2) Suc.prems(5) by (simp add: unat_word_ariths)
    have "get_many E n rr1 w1 = map (\<lambda>k. Inr (rr_servers rr1 !
        ((unat (rr_index rr1) + k) mod length (rr_servers rr1)))) [0..<n]"
      by (rule Suc.IH) (use s Suc.prems idx in simp_all)
    then show ?thesis
      using g s(1,4) idx
      by (simp add: upt_conv_Cons map_Suc_upt [symmetric] comp_def del: upt_Suc)
  qed
qed simp

theorem loadbalance_rotation_witness:
  "get_many (sample_env []) 4 (sample_pool ''loadbalance'' 3 [(''a'', True), (''b'', True), (''c'', True)])
     (sample_world [(''a'', True), (''b'', True), (''c'', True)] ()) = [Inr 0, Inr 1, Inr 2, Inr 0]"
proof -
  let ?xs = "[(''a'', True), (''b'', True), (''c'', True)]"
  have up: "\<forall>r \<in> set (rr_servers (sample_pool ''loadbalance'' 3 ?xs)). up (sample_world ?xs ()) r"
    using sample_world_all_up [of ?xs "()"] by simp
  have upt: "[0..<4] = [0, 1, 2, 3]" "[0..<length ?xs] = [0, 1, 2]" by code_simp+
  have "get_many (sample_env []) 4 (sample_pool ''loadbalance'' 3 ?xs) (sample_world ?xs ()) =
      map (\<lambda>k. Inr ([0, 1, 2] ! (k mod 3))) [0, 1, 2, 3]"
    using loadbalance_rotation [OF sample_env_ok sample_pool_wf _ _ up, of 4 "[]",
      unfolded sample_pool_fields upt] by simp
  then show ?thesis by simp
qed

text \<open>
  The ring in failover mode starts at the active server, or at the index when there is none.
\<close>

definition ring_start :: "'t RoundRobin \<Rightarrow> int" where
  "ring_start rr = (if rr_hasActive rr then rr_activeIdx rr
     else uint (rr_index rr) mod int (length (rr_servers rr)))"

definition ring_index :: "'t RoundRobin \<Rightarrow> nat \<Rightarrow> int" where
  "ring_index rr k = (ring_start rr + int k) mod int (length (rr_servers rr))"

lemma fo_index_mod:
  "rr_servers rr \<noteq> [] \<Longrightarrow> fo_index rr (s mod int (length (rr_servers rr))) k =
     (s + int k) mod int (length (rr_servers rr))"
  by (simp add: fo_index_def mod_simps)

lemma fo_indices_active:
  assumes "rr_hasActive rr" and "0 \<le> rr_activeIdx rr" and "rr_activeIdx rr < int n"
    and "n = length (rr_servers rr)"
  shows "fo_indices rr ((rr_activeIdx rr + 1) mod int n) [0..<n] =
    map (\<lambda>k. ring_index rr (Suc k)) [0..<n - 1]"
proof -
  let ?a = "rr_activeIdx rr"
  have fi: "fo_index rr ((?a + 1) mod int n) k = ring_index rr (Suc k)" for k
  proof -
    have "rr_servers rr \<noteq> []" using assms by auto
    then show ?thesis using assms(1,4) by (simp add: fo_index_mod ring_index_def ring_start_def add.assoc)
  qed
  have upt: "[0..<n] = [0..<n - 1] @ [n - 1]"
    using assms(2,3) by (metis Suc_diff_1 upt_Suc_append le0 of_nat_0_less_iff order_le_less_trans)
  have ne: "ring_index rr (Suc k) \<noteq> ?a" if "k < n - 1" for k
  proof
    assume "ring_index rr (Suc k) = ?a"
    then have "(?a + int (Suc k)) mod int n = ?a mod int n"
      using assms by (simp add: ring_index_def ring_start_def)
    then have "int n dvd int (Suc k)" by (metis add_diff_cancel_left' mod_eq_dvd_iff)
    then have "n dvd Suc k" by (metis int_dvd_int_iff)
    with that show False by (auto dest: dvd_imp_le)
  qed
  have "Suc (n - 1) = n" using assms(2,3) by simp
  then have last: "ring_index rr (Suc (n - 1)) = ?a"
    using assms by (simp add: ring_index_def ring_start_def mod_pos_pos_trivial)
  show ?thesis
    using assms(1) ne last by (simp add: fo_indices_def upt fi filter_id_conv comp_def)
qed

lemma fo_indices_inactive:
  assumes "\<not> rr_hasActive rr"
  shows "fo_indices (rr\<lparr>rr_index := i\<rparr>) (uint (rr_index rr) mod int (length (rr_servers rr)))
      [0..<length (rr_servers rr)] = map (ring_index rr) [0..<length (rr_servers rr)]"
proof -
  have "fo_index (rr\<lparr>rr_index := i\<rparr>) (uint (rr_index rr) mod int (length (rr_servers rr))) k = ring_index rr k"
    if "k < length (rr_servers rr)" for k
  proof -
    have "rr_servers (rr\<lparr>rr_index := i\<rparr>) \<noteq> []" using that by auto
    from fo_index_mod [OF this] show ?thesis
      using assms by (simp add: ring_index_def ring_start_def mod_simps)
  qed
  then show ?thesis using assms by (auto simp: fo_indices_def filter_id_conv)
qed

lemma fo_scan_order:
  assumes "ssh_library_ok E" and "servers_wf rr w"
    and "set (map (\<lambda>i. rr_servers rr ! nat i) (fo_indices rr si cks)) \<subseteq> set (rr_servers rr)"
    and "fo_scan E t ex now si cks rr w = (Inr r, rr', w')" and "is = fo_indices rr si cks"
  shows "\<exists>i < length is. rr_activeIdx rr' = is ! i \<and> r = rr_servers rr ! nat (is ! i) \<and>
    (\<forall>j < i. passed E t ex now True rr w (rr_servers rr ! nat (is ! j)))"
proof -
  obtain p rr1 w1 where s: "scan E t ex now True (map (\<lambda>i. rr_servers rr ! nat i) is) rr w = (p, rr1, w1)"
    by (metis prod_cases3)
  from assms(4) s obtain i where i: "p = Some i" "r = rr_servers rr ! nat (is ! i)"
    "rr_activeIdx rr' = is ! i"
    by (auto simp: fo_scan_eq Let_def assms(5) [symmetric] split: option.splits)
  have "set (map (\<lambda>i. rr_servers rr ! nat i) is) \<subseteq> set (rr_servers rr)"
    using assms(3,5) by metis
  from scan_correct [OF assms(1,2) this s] i show ?thesis by (auto intro!: exI [of _ i])
qed

lemma ring_servers:
  "rr_servers rr \<noteq> [] \<Longrightarrow> rr_servers rr ! nat (ring_index rr k) \<in> set (rr_servers rr)"
  by (simp add: ring_index_def nat_less_iff)

lemma scanNext_order:
  assumes "ssh_library_ok E" and "servers_wf rr w" and "rr_servers rr \<noteq> []"
    and "rr_hasActive rr \<Longrightarrow> 0 \<le> rr_activeIdx rr \<and> rr_activeIdx rr < int (length (rr_servers rr))"
    and "scanNext E t ex now rr w = (Inr r, rr', w')"
  shows "\<exists>k < length (rr_servers rr). (rr_hasActive rr \<longrightarrow> 0 < k) \<and>
    rr_activeIdx rr' = ring_index rr k \<and> r = rr_servers rr ! nat (ring_index rr k) \<and>
    (\<forall>j < k. (rr_hasActive rr \<longrightarrow> 0 < j) \<longrightarrow>
       passed E t ex now True rr w (rr_servers rr ! nat (ring_index rr j)))"
proof (cases "rr_hasActive rr")
  case True
  let ?n = "length (rr_servers rr)"
  let ?is = "map (\<lambda>k. ring_index rr (Suc k)) [0..<?n - 1]"
  have ring_is: "?is = fo_indices rr ((rr_activeIdx rr + 1) mod int ?n) [0..<?n]"
    using fo_indices_active [of rr ?n] True assms(4) by simp
  have sub: "set (map (\<lambda>i. rr_servers rr ! nat i) ?is) \<subseteq> set (rr_servers rr)"
    using ring_servers [OF assms(3)] by auto
  have "fo_scan E t ex now ((rr_activeIdx rr + 1) mod int ?n) [0..<?n] rr w = (Inr r, rr', w')"
    using assms(3,5) True assms(4) by (simp add: scanNext_def Let_def)
  from fo_scan_order [OF assms(1,2) sub [unfolded ring_is] this ring_is]
  obtain i where i: "i < ?n - 1" "rr_activeIdx rr' = ring_index rr (Suc i)"
    "r = rr_servers rr ! nat (ring_index rr (Suc i))"
    and p: "\<forall>j < i. passed E t ex now True rr w (rr_servers rr ! nat (ring_index rr (Suc j)))"
    by auto
  have "passed E t ex now True rr w (rr_servers rr ! nat (ring_index rr j))"
    if "j < Suc i" "0 < j" for j
    using p that by (cases j) auto
  then show ?thesis using i True by (intro exI [of _ "Suc i"]) simp
next
  case False
  let ?n = "length (rr_servers rr)" and ?rr = "rr\<lparr>rr_index := rr_index rr + 1\<rparr>"
  let ?is = "map (ring_index rr) [0..<?n]"
  have ring_is: "?is = fo_indices ?rr (uint (rr_index rr) mod int ?n) [0..<?n]"
    using fo_indices_inactive [OF False] by simp
  have sub: "set (map (\<lambda>i. rr_servers ?rr ! nat i) ?is) \<subseteq> set (rr_servers ?rr)"
    using ring_servers [OF assms(3)] by auto
  have wf: "servers_wf ?rr w" using assms(2) by (simp add: servers_wf_def)
  have "fo_scan E t ex now (uint (rr_index rr) mod int ?n) [0..<?n] ?rr w = (Inr r, rr', w')"
    using assms(3,5) False by (simp add: scanNext_def Let_def)
  from fo_scan_order [OF assms(1) wf sub [unfolded ring_is] this ring_is]
  obtain i where "i < ?n" "rr_activeIdx rr' = ring_index rr i"
    "r = rr_servers rr ! nat (ring_index rr i)"
    "\<forall>j < i. passed E t ex now True rr w (rr_servers rr ! nat (ring_index rr j))"
    by (auto simp: passed_def blocked_at_def)
  then show ?thesis using False by (intro exI [of _ i]) simp
qed

lemma getFailoverLocked_order_active:
  assumes "ssh_library_ok E" and "pool_wf rr w" and "rr_servers rr \<noteq> []" and "rr_hasActive rr"
    and g: "getFailoverLocked E t ex rr w = (Inr r, rr', w')"
  shows "\<exists>k < length (rr_servers rr).
    rr_activeIdx rr' = ring_index rr k \<and> r = rr_servers rr ! nat (ring_index rr k) \<and>
    (\<forall>j < k. passed E t ex (time_now E (w_tick w)) True rr w (rr_servers rr ! nat (ring_index rr j)))"
proof -
  let ?now = "time_now E (w_tick w)" and ?w0 = "w\<lparr>w_tick := Suc (w_tick w)\<rparr>"
  let ?a = "rr_servers rr ! nat (rr_activeIdx rr)"
  have wf: "servers_wf rr ?w0" and b: "0 \<le> rr_activeIdx rr" "rr_activeIdx rr < int (length (rr_servers rr))"
    using assms(2,4) by (simp_all add: pool_wf_def cursor_wf_def)
  have r0: "ring_index rr 0 = rr_activeIdx rr"
    using assms(4) b by (simp add: ring_index_def ring_start_def mod_pos_pos_trivial)
  have a: "?a \<in> set (rr_servers rr)" using b by simp
  obtain ok rr1 w1 where tr: "try_client E t ex ?now True ?a rr ?w0 = (ok, rr1, w1)"
    by (metis prod_cases3)
  note fr = try_client_scan_frame [OF assms(1) wf a tr]
  show ?thesis
  proof (cases ok)
    case True
    then have "r = ?a" "rr' = rr1"
      using g assms(4) b tr by (simp_all add: getFailoverLocked_eq now_at_def Let_def)
    then show ?thesis using fr(3) r0 assms(3) by (intro exI [of _ 0]) simp
  next
    case False
    then have f1: "scan_frame ?now rr w None rr1 w1" using fr(1) by simp
    then have srv: "rr_servers rr1 = rr_servers rr" by (simp add: scan_frame_def)
    have ring: "ring_index rr1 = ring_index rr" using fr(2-4) srv
      by (intro ext) (simp add: ring_index_def ring_start_def)
    have s: "scanNext E t ex ?now rr1 w1 = (Inr r, rr', w')"
      using g assms(4) b tr False by (simp add: getFailoverLocked_eq now_at_def Let_def)
    have "passed E t ex ?now True rr w ?a"
      using try_client_passed [OF assms(1) servers_wfD [OF wf a]] tr False by simp
    moreover from scanNext_order [OF assms(1) fr(5) _ _ s] assms(3,4) b srv fr(2,3)
    obtain k where "k < length (rr_servers rr)" "rr_activeIdx rr' = ring_index rr k"
      "r = rr_servers rr ! nat (ring_index rr k)"
      "\<forall>j < k. 0 < j \<longrightarrow> passed E t ex ?now True rr w (rr_servers rr ! nat (ring_index rr j))"
      by (auto simp: ring scan_frame_passed [OF f1])
    ultimately show ?thesis using r0 by (metis neq0_conv)
  qed
qed


lemma failover_order_abc:
  "fst (GetForTarget (sample_env []) ''x:80'' None (sample_active 0 abc) (sample_world abc ())) = Inr 2"
  by code_simp


lemma retry_loop_result:
  assumes "ssh_library_ok E" and "pool_wf rr w" and "retry_loop E m n prev rr w = (res, rr', w')"
  shows "pool_wf rr' w' \<and> rr_servers rr' = rr_servers rr \<and>
    (case res of
       Inr r \<Rightarrow> 0 < n \<and> r \<in> set (rr_servers rr) \<and> up w' r
     | Inl e \<Rightarrow> (\<exists>last'. (n = 0 \<longrightarrow> last' = prev) \<and> (0 < n \<longrightarrow> last' \<noteq> None) \<and>
         e = Errorf (''failed after '' @ Itoa m @ '' retries: '' @
               (case last' of None \<Rightarrow> ''%!w(<nil>)'' | Some e0 \<Rightarrow> Error e0)) last'))"
  using assms(2,3)
proof (induction n arbitrary: prev rr w)
  case (Suc n)
  obtain r1 rr1 w1 where g: "GetForTarget E '''' None rr w = (r1, rr1, w1)" by (metis prod_cases3)
  note fr = GetForTarget_frame [OF assms(1) Suc.prems(1) g]
    and c = GetForTarget_cases [OF assms(1) Suc.prems(1) g]
  show ?case
  proof (cases r1)
    case (Inl e)
    then have "retry_loop E m n (Some e) rr1 w1 = (res, rr', w')" using Suc.prems(2) g by simp
    from Suc.IH [OF fr(1) this] fr(2) show ?thesis
      by (auto simp: scan_frame_def split: sum.splits)
  next
    case (Inr r)
    then show ?thesis
      using Suc.prems(2) g c fr by (auto simp: select_taken_def scan_frame_def)
  qed
qed auto

text \<open>\<open>GetWithRetry\<close> returns a connected server of the pool, or, after at least one
  attempt, an error that names the number of retries and wraps the last selection error. With
  no retries at all it fails at once, wrapping nothing.\<close>

theorem GetWithRetry_result:
  assumes "ssh_library_ok E" and "pool_wf rr w" and "GetWithRetry E m rr w = (res, rr', w')"
  shows "pool_wf rr' w' \<and>
    (case res of
       Inr r \<Rightarrow> 0 < m \<and> r \<in> set (rr_servers rr) \<and> up w' r
     | Inl e \<Rightarrow>
         if m \<le> 0
         then e = Errorf (''failed after '' @ Itoa m @ '' retries: %!w(<nil>)'') None \<and> rr' = rr \<and> w' = w
         else (\<exists>e0. e = Errorf (''failed after '' @ Itoa m @ '' retries: '' @ Error e0) (Some e0) \<and>
                 errors_Is e e0))"
proof -
  have r: "retry_loop E m (nat m) None rr w = (res, rr', w')"
    using assms(3) by (simp add: GetWithRetry_def)
  from retry_loop_result [OF assms(1,2) r] r show ?thesis
    by (cases "m \<le> 0") (auto split: sum.splits)
qed

theorem GetWithRetry_result_witness:
  "pool_wf (fst (snd (GetWithRetry (sample_env []) 3 (sample_pool ''failover'' 1 abc) (sample_world abc ()))))
     (snd (snd (GetWithRetry (sample_env []) 3 (sample_pool ''failover'' 1 abc) (sample_world abc ()))))"
  using GetWithRetry_result [OF sample_env_ok sample_pool_wf triple,
      of "[]" 3 "''failover''" 1 abc "()"] by blast

end
