(* ===== verification/TargetFailures.thy ===== *)
theory TargetFailures
  imports Strategy
begin

text \<open>
  What the table of failed targets means for the rest of the program: how long a target stays
  blocked, what the threshold counts, and how selections interact with it. The operations are
  in \<open>Pool\<close>.
\<close>

section \<open>The block and its end\<close>

lemma isTargetBlockedLocked_blocked:
  "fst (isTargetBlockedLocked (Some (w_store w r)) target t rr) = blocked_pair w rr (r, target) t"
  using isTargetBlockedLocked_cases(1) [OF prod.collapse [symmetric]]
  by (simp add: blocked_pair_def addr_of_def)


lemma sample_counts_ok: "counts_ok (sample_pool s k xs)"
  by (simp add: counts_ok_def)


section \<open>What the threshold counts\<close>

text \<open>\<open>n\<close> failures of one target reported in a row.\<close>

primrec report_times ::
    "env \<Rightarrow> client_ref \<Rightarrow> string \<Rightarrow> int \<Rightarrow> duration \<Rightarrow> nat \<Rightarrow> 't RoundRobin \<Rightarrow> 't world \<Rightarrow>
     't RoundRobin \<times> 't world" where
  "report_times E r target threshold ttl 0 rr w = (rr, w)"
| "report_times E r target threshold ttl (Suc n) rr w =
     (case report_times E r target threshold ttl n rr w of
        (rr1, w1) \<Rightarrow> ReportTargetFailure E (Some r) target threshold ttl None rr1 w1)"

lemma ReportTargetFailure_None:
  assumes "target \<noteq> ''''"
  shows "ReportTargetFailure E (Some r) target threshold ttl None rr w =
    (let key = targetFailureKey (addr_of w r) target;
         s = (case rr_targetFailures rr key of Some s \<Rightarrow> s
              | None \<Rightarrow> \<lparr>tf_FailCount = 0, tf_BlockedUntil = zero_time, tf_LastError = ''''\<rparr>);
         n = go_int (tf_FailCount s + 1)
     in if max 1 threshold \<le> n then
          (rr\<lparr>rr_targetFailures := (rr_targetFailures rr)(key \<mapsto>
             s\<lparr>tf_FailCount := n, tf_BlockedUntil := time_now E (w_tick w) + effective_ttl ttl\<rparr>)\<rparr>,
           w\<lparr>w_tick := Suc (w_tick w)\<rparr>)
        else (rr\<lparr>rr_targetFailures := (rr_targetFailures rr)(key \<mapsto> s\<lparr>tf_FailCount := n\<rparr>)\<rparr>, w))"
  using assms
  by (auto simp: ReportTargetFailure_def now_at_def effective_ttl_def Let_def max_def
      split: option.splits)

lemma report_times_below:
  assumes "target \<noteq> ''''" and "rr_targetFailures rr (targetFailureKey (addr_of w r) target) = None"
    and "int n < threshold" and "threshold < 2 ^ 63"
  shows "snd (report_times E r target threshold ttl n rr w) = w \<and>
    rr_targetFailures (fst (report_times E r target threshold ttl n rr w))
      (targetFailureKey (addr_of w r) target) =
    (if n = 0 then None
     else Some \<lparr>tf_FailCount = int n, tf_BlockedUntil = zero_time, tf_LastError = ''''\<rparr>)"
  using assms(3)
proof (induction n)
  case (Suc n)
  obtain rr1 w1 where r: "report_times E r target threshold ttl n rr w = (rr1, w1)"
    by (cases "report_times E r target threshold ttl n rr w")
  have go: "go_int (1 + int n) = 1 + int n" using Suc.prems assms(4) by (intro go_int_id) auto
  then have "go_int 1 = 1" if "n = 0" using that by simp
  with Suc r go show ?case
    by (cases "n = 0") (simp_all add: ReportTargetFailure_None [OF assms(1)] Let_def add.commute)
qed (use assms(2) in simp)

text \<open>The threshold counts failures in a row: starting without a record, fewer reports than
  the threshold block nothing (at any moment after the zero time), and the report that reaches
  the threshold blocks the target until the time to live has passed.\<close>

theorem threshold_reached:
  assumes "target \<noteq> ''''" and "rr_targetFailures rr (targetFailureKey (addr_of w r) target) = None"
    and "1 \<le> n" and "int n < 2 ^ 63" and "zero_time \<le> t"
  shows "(\<forall>k < n. \<not> blocked_at (fst (report_times E r target (int n) ttl k rr w)) (addr_of w r) target t) \<and>
    (blocked_at (fst (report_times E r target (int n) ttl n rr w)) (addr_of w r) target t \<longleftrightarrow>
       t < time_now E (w_tick w) + effective_ttl ttl)"
proof -
  obtain m where n: "n = Suc m" using assms(3) by (cases n) auto
  let ?s = "report_times E r target (int n) ttl"
  have "\<not> blocked_at (fst (?s k rr w)) (addr_of w r) target t" if "k < n" for k
    using report_times_below [OF assms(1,2), of k "int n" E ttl] that assms(4,5)
    by (simp add: blocked_at_def)
  moreover have "snd (?s m rr w) = w \<and> rr_targetFailures (fst (?s m rr w))
      (targetFailureKey (addr_of w r) target) = (if m = 0 then None
       else Some \<lparr>tf_FailCount = int m, tf_BlockedUntil = zero_time, tf_LastError = ''''\<rparr>)"
    using assms(4) by (intro report_times_below assms(1,2)) (simp_all add: n)
  moreover have "go_int (1 + int m) = 1 + int m" using assms(4) by (intro go_int_id) (auto simp: n)
  ultimately show ?thesis
    using assms(1)
    by (cases "?s m rr w") (auto simp: n ReportTargetFailure_None Let_def blocked_at_def add.commute
        split: if_splits)
qed

theorem threshold_reached_witness:
  "blocked_at (fst (report_times (sample_env []) 0 ''x:80'' (int 2) 0 2 (sample_pool ''failover'' 1 abc)
     (sample_world abc ()))) ''a:22'' ''x:80'' 0"
  using threshold_reached [of "''x:80''" "sample_pool ''failover'' 1 abc" "sample_world abc ()" 0 2 0
      "sample_env []" 0]
  by (simp add: sample_env_def second_def minute_def effective_ttl_def zero_time_def)

section \<open>Selections forget unfinished counts\<close>

text \<open>
  A run of connections that all fail: for each target a selection, then a failure report for
  the client it returned, as \<open>DialTargetWithRetries\<close> does.
\<close>

fun failing_dials ::
    "env \<Rightarrow> int \<Rightarrow> duration \<Rightarrow> string list \<Rightarrow> 't RoundRobin \<Rightarrow> 't world \<Rightarrow> 't RoundRobin \<times> 't world" where
  "failing_dials E threshold ttl [] rr w = (rr, w)"
| "failing_dials E threshold ttl (target # ts) rr w =
     (case GetForTarget E target None rr w of
        (Inl e, rr1, w1) \<Rightarrow> failing_dials E threshold ttl ts rr1 w1
      | (Inr r, rr1, w1) \<Rightarrow>
          (case ReportTargetFailure E (Some r) target threshold ttl None rr1 w1 of
             (rr2, w2) \<Rightarrow> failing_dials E threshold ttl ts rr2 w2))"

definition unblocking :: "'t RoundRobin \<Rightarrow> bool" where
  "unblocking rr \<longleftrightarrow> (\<forall>k s. rr_targetFailures rr k = Some s \<longrightarrow> tf_BlockedUntil s = zero_time)"

lemma unblocking_pruned:
  "unblocking rr \<Longrightarrow> pruned now (rr_targetFailures rr) (rr_targetFailures rr') \<Longrightarrow> unblocking rr'"
  unfolding unblocking_def pruned_def by (metis option.distinct(1))

lemma failing_dial_unblocking:
  assumes "ssh_library_ok E" and "pool_wf rr w" and "2 \<le> threshold" and "unblocking rr"
    and "GetForTarget E target None rr w = (Inr r, rr1, w1)"
    and "ReportTargetFailure E (Some r) target threshold ttl None rr1 w1 = (rr2, w2)"
  shows "unblocking rr2"
proof -
  have c: "scan_frame (time_now E (w_tick w)) rr w (Some r) rr1 w1"
    "target = '''' \<or> rr_targetFailures rr1 (targetFailureKey (addr_of w r) target) = None"
    using GetForTarget_cases [OF assms(1,2,5)] by (auto simp: select_taken_def taken_def)
  have a: "addr_of w1 r = addr_of w r" using c(1) by (rule scan_frame_addr)
  have u: "unblocking rr1" using unblocking_pruned [OF assms(4)] c(1) unfolding scan_frame_def by blast
  show ?thesis
  proof (cases "target = ''''")
    case True
    then show ?thesis using u assms(6) by (simp add: ReportTargetFailure_def)
  next
    case False
    moreover have "go_int 1 = 1" by (simp add: go_int_def)
    ultimately show ?thesis
      using u c(2) assms(3,6) a
      by (auto simp: ReportTargetFailure_None Let_def unblocking_def split: if_splits)
  qed
qed



end
