(* ===== verification/HealthChecks.thy ===== *)
theory HealthChecks
  imports TargetFailures
begin

text \<open>
  Statistics and the periodic health check (\<open>internal/sshroundrobin/healthcheck.go\<close>).
\<close>

section \<open>Statistics\<close>

fun stats_from :: "'t RoundRobin \<Rightarrow> 't world \<Rightarrow> int \<Rightarrow> client_ref list \<Rightarrow> UpstreamStat list" where
  "stats_from rr w idx [] = []"
| "stats_from rr w idx (r # rs) =
     (let s = Stats (w_store w r) in
      \<lparr>us_Addr = st_Addr s, us_Mode = st_Mode s, us_Healthy = st_Healthy s,
       us_Active = (rr_hasActive rr \<and> idx = rr_activeIdx rr),
       us_SelectedCount = st_SelectedCount s, us_ReconnectCount = st_ReconnectCount s,
       us_HealthcheckCount = st_HealthcheckCount s, us_LastSelectedAt = st_LastSelectedAt s,
       us_LastCheckedAt = st_LastCheckedAt s, us_LastError = st_LastError s\<rparr>
      # stats_from rr w (idx + 1) rs)"

definition StatsSnapshot :: "'t RoundRobin \<Rightarrow> 't world \<Rightarrow> UpstreamStat list" where
  "StatsSnapshot rr w = stats_from rr w 0 (rr_servers rr)"

definition ansi :: "string \<Rightarrow> string" where
  "ansi code = CHR 0x1B # CHR ''['' # code @ ''m''"

definition ansiReset :: string where "ansiReset = ansi ''0''"

definition upstreamColors :: "string list" where
  "upstreamColors = [ansi ''36'', ansi ''34'', ansi ''35'', ansi ''37'']"

definition stat_line :: "nat \<Rightarrow> UpstreamStat \<Rightarrow> string" where
  "stat_line idx stat =
     (let color = upstreamColors ! (idx mod length upstreamColors);
          addr = color @ us_Addr stat @ ansiReset;
          health = (if us_Healthy stat then ansi ''32'' @ ''up'' @ ansiReset
                    else ansi ''31'' @ ''down'' @ ansiReset);
          active = (if us_Active stat then ansi ''33'' @ ''yes'' @ ansiReset else ''no'');
          line = ''  - '' @ addr @ '' mode='' @ us_Mode stat @ '' health='' @ health @
                 '' active='' @ active @ '' hits='' @ Itoa (uint (us_SelectedCount stat)) @
                 '' reconnects='' @ Itoa (uint (us_ReconnectCount stat)) @
                 '' checks='' @ Itoa (uint (us_HealthcheckCount stat))
      in if us_LastError stat \<noteq> '''' then line @ '' err='' @ Quote (us_LastError stat) else line)"

definition StatsSummary :: "'t RoundRobin \<Rightarrow> 't world \<Rightarrow> string" where
  "StatsSummary rr w =
     (let stats = StatsSnapshot rr w in
      if stats = [] then CHR 0x0A # ''  - no upstreams''
      else CHR 0x0A # Join [CHR 0x0A] (map2 stat_line [0..<length stats] stats))"

section \<open>Health checks\<close>

text \<open>The first loop: probe every connected client, collecting \<open>healthy\<close> and the report.\<close>

fun probe_all ::
    "env \<Rightarrow> client_ref list \<Rightarrow> HealthCheckReport \<Rightarrow> 't world \<Rightarrow>
     bool list \<times> HealthCheckReport \<times> 't world" where
  "probe_all E [] rep w = ([], rep, w)"
| "probe_all E (r # rs) rep w =
     (case IsConnected_at r w of
        (False, w1) \<Rightarrow>
          (case probe_all E rs rep w1 of (hs, rep1, w2) \<Rightarrow> (False # hs, rep1, w2))
      | (True, w1) \<Rightarrow>
          (let rep1 = rep\<lparr>hr_Checked := hr_Checked rep + 1\<rparr>;
               wasHealthy = IsHealthy (w_store w1 r)
           in case HealthCheck_at E r w1 of
                (Some e, w2) \<Rightarrow>
                  (let rep2 = (if wasHealthy
                               then rep1\<lparr>hr_Failed := hr_Failed rep1 @ [addr_of w2 r]\<rparr> else rep1)
                   in case probe_all E rs rep2 w2 of (hs, rep3, w3) \<Rightarrow> (False # hs, rep3, w3))
              | (None, w2) \<Rightarrow>
                  (let rep2 = (if \<not> wasHealthy
                               then rep1\<lparr>hr_Recovered := hr_Recovered rep1 @ [addr_of w2 r]\<rparr>
                               else rep1)
                   in case probe_all E rs rep2 w2 of (hs, rep3, w3) \<Rightarrow> (True # hs, rep3, w3))))"

text \<open>The last loop: connect the first server that can be connected.\<close>

fun connect_first ::
    "env \<Rightarrow> nat \<Rightarrow> client_ref list \<Rightarrow> 't world \<Rightarrow> (nat \<times> client_ref) option \<times> 't world" where
  "connect_first E idx [] w = (None, w)"
| "connect_first E idx (r # rs) w =
     (case EnsureConnected_at E r w of
        (None, w1) \<Rightarrow> (Some (idx, r), w1)
      | (Some e, w1) \<Rightarrow> connect_first E (Suc idx) rs w1)"

definition empty_report :: HealthCheckReport where
  "empty_report = \<lparr>hr_Checked = 0, hr_Recovered = [], hr_Failed = [],
                   hr_SwitchedFrom = '''', hr_SwitchedTo = ''''\<rparr>"

definition RunHealthChecks ::
    "env \<Rightarrow> 't RoundRobin \<Rightarrow> 't world \<Rightarrow> HealthCheckReport \<times> 't RoundRobin \<times> 't world" where
  "RunHealthChecks E rr w =
     (if rr_servers rr = [] then (empty_report, rr, w)
      else
        (case probe_all E (rr_servers rr) empty_report w of
           (healthy, rep, w1) \<Rightarrow>
             if rr_strategy rr \<noteq> StrategyFailover then (rep, rr, w1)
             else if rr_hasActive rr \<and> 0 \<le> rr_activeIdx rr \<and>
                     rr_activeIdx rr < int (length healthy) \<and> healthy ! nat (rr_activeIdx rr)
             then (rep, rr, w1)
             else
               (let rep1 = (if rr_hasActive rr \<and> 0 \<le> rr_activeIdx rr \<and>
                               rr_activeIdx rr < int (length (rr_servers rr))
                            then rep\<lparr>hr_SwitchedFrom :=
                                   addr_of w1 (rr_servers rr ! nat (rr_activeIdx rr))\<rparr>
                            else rep)
                in case index_of True healthy of
                     Some idx \<Rightarrow>
                       (rep1\<lparr>hr_SwitchedTo := addr_of w1 (rr_servers rr ! idx)\<rparr>,
                        rr\<lparr>rr_activeIdx := int idx, rr_hasActive := True\<rparr>, w1)
                   | None \<Rightarrow>
                       (case connect_first E 0 (rr_servers rr) w1 of
                          (Some (idx, r), w2) \<Rightarrow>
                            (rep1\<lparr>hr_SwitchedTo := addr_of w2 r\<rparr>,
                             rr\<lparr>rr_activeIdx := int idx, rr_hasActive := True\<rparr>, w2)
                        | (None, w2) \<Rightarrow>
                            (rep1, rr\<lparr>rr_activeIdx := 0, rr_hasActive := False\<rparr>, w2)))))"

section \<open>What a check finds\<close>

text \<open>
  The probes: \<open>healthy\<close> says who is connected afterwards, nobody becomes connected, and the
  report lists exactly the connections that were lost.
\<close>

definition lost :: "'t world \<Rightarrow> 't world \<Rightarrow> client_ref \<Rightarrow> bool" where
  "lost w w' r \<longleftrightarrow> up w r \<and> \<not> up w' r"

definition probed_report ::
    "HealthCheckReport \<Rightarrow> client_ref list \<Rightarrow> 't world \<Rightarrow> 't world \<Rightarrow> HealthCheckReport" where
  "probed_report rep rs w w' =
     rep\<lparr>hr_Checked := hr_Checked rep + int (length (filter (up w) rs)),
         hr_Failed := hr_Failed rep @ map (addr_of w) (filter (lost w w') rs)\<rparr>"

lemma up_healthy: "client_wf (w_store w r) \<Longrightarrow> up w r \<Longrightarrow> IsHealthy (w_store w r)"
  by (simp add: up_def IsHealthy_def client_wf_healthy)

lemma probe_all_correct:
  assumes "probe_all E rs rep w = (hs, rep', w')" and "distinct rs"
    and "\<forall>r \<in> set rs. client_wf (w_store w r)"
  shows "hs = map (up w') rs \<and> evolves (set rs) w w' \<and>
    (\<forall>q. up w' q \<longrightarrow> up w q) \<and> (\<forall>q. q \<notin> set rs \<longrightarrow> up w' q = up w q) \<and>
    rep' = probed_report rep rs w w'"
  using assms
proof (induction rs arbitrary: rep w hs rep' w')
  case Nil
  then show ?case by (simp add: probed_report_def)
next
  case (Cons r rs)
  have wf: "client_wf (w_store w r)" using Cons.prems(3) by simp
  show ?case
  proof (cases "up w r")
    case False
    then obtain hs1 where p: "probe_all E rs rep w = (hs1, rep', w')" and hs: "hs = False # hs1"
      using Cons.prems(1) wf by (auto split: prod.splits)
    from Cons.IH [OF p] Cons.prems(2,3) False hs show ?thesis
      by (auto simp: probed_report_def lost_def intro: evolves_mono)
  next
    case True
    obtain x w1 where h: "HealthCheck_at E r w = (x, w1)" by (cases "HealthCheck_at E r w")
    note c = HealthCheck_at_cases(1,2) [OF wf h]
    let ?rep1 = "rep\<lparr>hr_Checked := hr_Checked rep + 1\<rparr>"
    let ?rep2 = "if x = None then ?rep1 else ?rep1\<lparr>hr_Failed := hr_Failed rep @ [addr_of w r]\<rparr>"
    have a: "addr_of w1 r = addr_of w r" using c(1) by (rule evolves_addr)
    obtain hs1 where p: "probe_all E rs ?rep2 w1 = (hs1, rep', w')" and hs: "hs = (x = None) # hs1"
      using Cons.prems(1) wf True h up_healthy [OF wf True] a
      by (cases x) (auto simp: Let_def split: prod.splits)
    have "\<forall>q \<in> set rs. client_wf (w_store w1 q)" using Cons.prems(3) evolves_wf [OF c(1)] by simp
    with Cons.IH [OF p] Cons.prems(2)
    have IH: "hs1 = map (up w') rs" "evolves (set rs) w1 w'" "\<forall>q. up w' q \<longrightarrow> up w1 q"
      "\<forall>q. q \<notin> set rs \<longrightarrow> up w' q = up w1 q" "rep' = probed_report ?rep2 rs w1 w'" by auto
    have r: "up w' r \<longleftrightarrow> x = None" using IH(4) Cons.prems(2) c(2) by simp
    have same: "up w1 q = up w q" if "q \<in> set rs" for q
      using c(2) [of q] that Cons.prems(2) by auto
    have f: "filter (up w1) rs = filter (up w) rs" "filter (lost w1 w') rs = filter (lost w w') rs"
      using same by (auto simp: lost_def intro!: filter_cong)
    have "addr_of w1 = addr_of w" using evolves_addr [OF c(1)] by (intro ext)
    then have "rep' = probed_report rep (r # rs) w w'"
      using IH(5) f r True by (simp add: probed_report_def lost_def)
    moreover have "evolves (set (r # rs)) w w'"
      using evolves_trans [OF evolves_mono [OF c(1)] evolves_mono [OF IH(2)]] by auto
    moreover have "up w' q \<longrightarrow> up w q" for q using IH(3) c(2) [of q] True by (auto split: if_splits)
    moreover have "up w' q = up w q" if "q \<notin> set (r # rs)" for q using IH(4) c(2) [of q] that by simp
    ultimately show ?thesis using hs IH(1) r by auto
  qed
qed

lemma connect_first_correct:
  assumes "ssh_library_ok E" and "connect_first E k rs w = (res, w')"
    and "\<forall>r \<in> set rs. client_wf (w_store w r)"
  shows "evolves (set rs) w w' \<and>
    (case res of
       None \<Rightarrow> (\<forall>q. up w' q \<longleftrightarrow> up w q \<and> q \<notin> set rs) \<and> (\<forall>r \<in> set rs. \<not> up w r)
     | Some (i, r) \<Rightarrow> k \<le> i \<and> i < k + length rs \<and> r = rs ! (i - k) \<and>
         (\<forall>q. up w' q \<longleftrightarrow> up w q \<or> q = r) \<and> (\<forall>j < i - k. \<not> up w (rs ! j)))"
  using assms(2,3)
proof (induction rs arbitrary: k w)
  case (Cons r rs)
  obtain x w1 where e: "EnsureConnected_at E r w = (x, w1)" by (cases "EnsureConnected_at E r w")
  note c = EnsureConnected_at_cases [OF assms(1) _ e] 
  have wf: "client_wf (w_store w r)" using Cons.prems(2) by simp
  have ev: "evolves (set (r # rs)) w w1" using c(1) [OF wf] by (rule evolves_mono) simp
  show ?case
  proof (cases x)
    case None
    then have "res = Some (k, r)" "w' = w1" using Cons.prems(1) e by simp_all
    then show ?thesis using None ev c(2) [OF wf] by simp
  next
    case (Some err)
    then have p: "connect_first E (Suc k) rs w1 = (res, w')" using Cons.prems(1) e by simp
    have down: "\<not> up w r" using c(4) [OF wf] Some by blast
    have same: "up w1 q = up w q" for q using c(2) [OF wf, of q] Some down by auto
    have "\<forall>q \<in> set rs. client_wf (w_store w1 q)" using Cons.prems(2) evolves_wf [OF c(1)] wf by simp
    note IH = Cons.IH [OF p this, unfolded same]
    have "evolves (set (r # rs)) w w'"
      using evolves_trans [OF ev evolves_mono] IH by auto
    moreover have "\<forall>j < i - k. \<not> up w ((r # rs) ! j)" if "\<forall>j < i - Suc k. \<not> up w (rs ! j)" for i
    proof (intro allI impI)
      fix j assume "j < i - k"
      then show "\<not> up w ((r # rs) ! j)" using that down by (cases j) auto
    qed
    moreover have "(r # rs) ! (i - k) = rs ! (i - Suc k)" if "Suc k \<le> i" for i
      using that by (simp add: nth_Cons' Suc_le_eq)
    ultimately show ?thesis
      using IH down by (auto split: option.splits)
  qed
qed simp

definition active_client :: "'t RoundRobin \<Rightarrow> client_ref" where
  "active_client rr = rr_servers rr ! nat (rr_activeIdx rr)"

text \<open>The three ways a check in failover mode ends, from the world \<open>w1\<close> after the probes.\<close>

lemma RunHealthChecks_failover:
  assumes "ssh_library_ok E" and "pool_wf rr w" and "distinct (rr_servers rr)"
    and "rr_servers rr \<noteq> []" and "rr_strategy rr = StrategyFailover"
    and "RunHealthChecks E rr w = (rep, rr', w')"
  obtains (kept) "rr_hasActive rr" and "up w' (active_client rr)" and "rr' = rr"
      and "rep = probed_report empty_report (rr_servers rr) w w'" and "evolves (set (rr_servers rr)) w w'"
  | (switched) i w1 where "i < length (rr_servers rr)" and "up w' (rr_servers rr ! i)"
      and "\<forall>j < i. \<not> up w' (rr_servers rr ! j)"
      and "rr' = rr\<lparr>rr_activeIdx := int i, rr_hasActive := True\<rparr>"
      and "rep = (probed_report empty_report (rr_servers rr) w w1)
             \<lparr>hr_SwitchedFrom := (if rr_hasActive rr then addr_of w (active_client rr) else ''''),
              hr_SwitchedTo := addr_of w (rr_servers rr ! i)\<rparr>"
      and "evolves (set (rr_servers rr)) w w'"
  | (none) w1 where "\<forall>r \<in> set (rr_servers rr). \<not> up w' r"
      and "rr' = rr\<lparr>rr_activeIdx := 0, rr_hasActive := False\<rparr>"
      and "rep = (probed_report empty_report (rr_servers rr) w w1)
             \<lparr>hr_SwitchedFrom := (if rr_hasActive rr then addr_of w (active_client rr) else '''')\<rparr>"
      and "evolves (set (rr_servers rr)) w w'"
proof -
  let ?rs = "rr_servers rr"
  have wfs: "\<forall>r \<in> set ?rs. client_wf (w_store w r)" and cur: "cursor_wf rr"
    using assms(2) by (simp_all add: pool_wf_def servers_wf_def)
  obtain hs rep1 w1 where p: "probe_all E ?rs empty_report w = (hs, rep1, w1)" by (metis prod_cases3)
  from probe_all_correct [OF this assms(3) wfs]
  have hs: "hs = map (up w1) ?rs" and ev: "evolves (set ?rs) w w1"
    and rep1: "rep1 = probed_report empty_report ?rs w w1" by simp_all
  have addr: "addr_of w1 = addr_of w" using evolves_addr [OF ev] by (intro ext)
  have bounds: "rr_hasActive rr \<Longrightarrow> 0 \<le> rr_activeIdx rr \<and> rr_activeIdx rr < int (length ?rs)"
    using cur by (simp add: cursor_wf_def)
  let ?rep2 = "rep1\<lparr>hr_SwitchedFrom := (if rr_hasActive rr then addr_of w (active_client rr) else '''')\<rparr>"
  have rep2: "(if rr_hasActive rr \<and> 0 \<le> rr_activeIdx rr \<and> rr_activeIdx rr < int (length ?rs)
      then rep1\<lparr>hr_SwitchedFrom := addr_of w1 (?rs ! nat (rr_activeIdx rr))\<rparr> else rep1) = ?rep2"
    using bounds by (simp add: addr active_client_def rep1 probed_report_def empty_report_def)
  show ?thesis
  proof (cases "rr_hasActive rr \<and> up w1 (active_client rr)")
    case True
    then have "(rep, rr', w') = (rep1, rr, w1)"
      using assms(4-6) p hs bounds by (simp add: RunHealthChecks_def active_client_def nat_less_iff)
    then show ?thesis using True rep1 ev by (intro kept) simp_all
  next
    case False
    then have dead: "\<not> (rr_hasActive rr \<and> 0 \<le> rr_activeIdx rr \<and> rr_activeIdx rr < int (length hs) \<and>
        hs ! nat (rr_activeIdx rr))"
      by (auto simp: hs active_client_def nat_less_iff)
    have run: "(rep, rr', w') = (case index_of True hs of
        Some idx \<Rightarrow> (?rep2\<lparr>hr_SwitchedTo := addr_of w1 (?rs ! idx)\<rparr>,
                     rr\<lparr>rr_activeIdx := int idx, rr_hasActive := True\<rparr>, w1)
      | None \<Rightarrow> (case connect_first E 0 ?rs w1 of
          (Some (idx, r), w2) \<Rightarrow> (?rep2\<lparr>hr_SwitchedTo := addr_of w2 r\<rparr>,
                     rr\<lparr>rr_activeIdx := int idx, rr_hasActive := True\<rparr>, w2)
        | (None, w2) \<Rightarrow> (?rep2, rr\<lparr>rr_activeIdx := 0, rr_hasActive := False\<rparr>, w2)))"
      using assms(4,5) assms(6) [symmetric]
      unfolding RunHealthChecks_def Let_def p prod.case rep2 if_not_P [OF dead] by simp
    show ?thesis
    proof (cases "index_of True hs")
      case (Some i)
      from index_of_Some [OF this] have "i < length ?rs" "up w1 (?rs ! i)" "\<forall>j < i. \<not> up w1 (?rs ! j)"
        by (auto simp: hs)
      then show ?thesis using run Some ev by (intro switched [of i w1]) (simp_all add: rep1 addr)
    next
      case None
      then have down: "\<forall>r \<in> set ?rs. \<not> up w1 r" by (auto simp: index_of_None hs)
      obtain res w2 where c: "connect_first E 0 ?rs w1 = (res, w2)" by (cases "connect_first E 0 ?rs w1")
      have "\<forall>r \<in> set ?rs. client_wf (w_store w1 r)" using wfs evolves_wf [OF ev] by simp
      note cf = connect_first_correct [OF assms(1) c this]
      have ev2: "evolves (set ?rs) w w2" using evolves_trans [OF ev] cf by simp
      show ?thesis
      proof (cases res)
        case None
        with cf have "\<forall>r \<in> set ?rs. \<not> up w2 r" by simp
        then show ?thesis using run \<open>index_of True hs = None\<close> c None ev2
          by (intro none [of w1]) (simp_all add: rep1)
      next
        case (Some ir)
        then obtain i where ir: "ir = (i, ?rs ! i)" "i < length ?rs"
          "\<And>q. up w2 q \<longleftrightarrow> up w1 q \<or> q = ?rs ! i" using cf by (cases ir) auto
        have "\<not> up w2 (?rs ! j)" if "j < i" for j
          using that ir(2,3) down assms(3) by (simp add: nth_eq_iff_index_eq)
        moreover have "addr_of w2 = addr_of w" using evolves_addr [OF ev2] by (intro ext)
        ultimately show ?thesis using run \<open>index_of True hs = None\<close> c Some ir ev2
          by (intro switched [of i w1]) (simp_all add: rep1)
      qed
    qed
  qed
qed

lemma evolves_addrs: "evolves S w w' \<Longrightarrow> addr_of w' = addr_of w"
  by (intro ext) (rule evolves_addr)

lemma RunHealthChecks_wf [pool_inv]:
  assumes "ssh_library_ok E" and "pool_wf rr w" and "distinct (rr_servers rr)"
    and "RunHealthChecks E rr w = (rep, rr', w')"
  shows "pool_wf rr' w' \<and> rr_servers rr' = rr_servers rr \<and> evolves (set (rr_servers rr)) w w' \<and>
    rr_targetFailures rr' = rr_targetFailures rr"
proof -
  have wf: "cursor_wf rr" "servers_wf rr w" using assms(2) by (simp_all add: pool_wf_def)
  consider (empty) "rr_servers rr = []"
    | (lb) "rr_servers rr \<noteq> []" "rr_strategy rr \<noteq> StrategyFailover"
    | (fo) "rr_servers rr \<noteq> []" "rr_strategy rr = StrategyFailover" by blast
  then show ?thesis
  proof cases
    case empty
    then show ?thesis using assms(2,4) by (simp add: RunHealthChecks_def)
  next
    case lb
    obtain hs rep1 w1 where p: "probe_all E (rr_servers rr) empty_report w = (hs, rep1, w1)"
      by (metis prod_cases3)
    then have "rr' = rr" "w' = w1" using lb assms(4) by (simp_all add: RunHealthChecks_def)
    moreover from probe_all_correct [OF p assms(3)] wf(2)
    have "evolves (set (rr_servers rr)) w w1" by (simp add: servers_wf_def)
    ultimately show ?thesis using wf servers_wf_evolves [OF wf(2), of _ w1 rr] by (simp add: pool_wf_def)
  next
    case fo
    show ?thesis
    proof (rule RunHealthChecks_failover [OF assms(1-3) fo assms(4)], goal_cases kept switched none)
      case kept
      then show ?thesis using wf servers_wf_evolves [OF wf(2), of _ w' rr] by (simp add: pool_wf_def)
    next
      case (switched i w1)
      then show ?thesis using wf servers_wf_evolves [OF wf(2), of _ w' rr'] fo
        by (auto simp: pool_wf_def cursor_wf_def)
    next
      case (none w1)
      then show ?thesis using wf servers_wf_evolves [OF wf(2), of _ w' rr'] fo
        by (auto simp: pool_wf_def cursor_wf_def)
    qed
  qed
qed





lemma stats_from_nth:
  "length (stats_from rr w k rs) = length rs \<and>
   (\<forall>i < length rs. stats_from rr w k rs ! i =
      (let s = Stats (w_store w (rs ! i)) in
       \<lparr>us_Addr = st_Addr s, us_Mode = st_Mode s, us_Healthy = st_Healthy s,
        us_Active = (rr_hasActive rr \<and> k + int i = rr_activeIdx rr),
        us_SelectedCount = st_SelectedCount s, us_ReconnectCount = st_ReconnectCount s,
        us_HealthcheckCount = st_HealthcheckCount s, us_LastSelectedAt = st_LastSelectedAt s,
        us_LastCheckedAt = st_LastCheckedAt s, us_LastError = st_LastError s\<rparr>))"
proof (induction rs arbitrary: k)
  case (Cons r rs)
  show ?case
  proof (intro conjI allI impI)
    show "length (stats_from rr w k (r # rs)) = length (r # rs)" using Cons by (simp add: Let_def)
  next
    fix i assume "i < length (r # rs)"
    then show "stats_from rr w k (r # rs) ! i = (let s = Stats (w_store w ((r # rs) ! i)) in
       \<lparr>us_Addr = st_Addr s, us_Mode = st_Mode s, us_Healthy = st_Healthy s,
        us_Active = (rr_hasActive rr \<and> k + int i = rr_activeIdx rr),
        us_SelectedCount = st_SelectedCount s, us_ReconnectCount = st_ReconnectCount s,
        us_HealthcheckCount = st_HealthcheckCount s, us_LastSelectedAt = st_LastSelectedAt s,
        us_LastCheckedAt = st_LastCheckedAt s, us_LastError = st_LastError s\<rparr>)"
      using Cons [of "k + 1"] by (cases i) (simp_all add: Let_def add.assoc)
  qed
qed simp

text \<open>The statistics have one row per server in the pool's order, with its address and
  selection count; a row is healthy exactly when the server is connected, and exactly the row
  of the active server, if there is one, is marked active.\<close>

theorem StatsSnapshot_rows:
  assumes "pool_wf rr w"
  shows "length (StatsSnapshot rr w) = length (rr_servers rr) \<and>
    (\<forall>i < length (rr_servers rr). let r = rr_servers rr ! i; row = StatsSnapshot rr w ! i in
       us_Addr row = addr_of w r \<and> us_Healthy row = up w r \<and>
       us_SelectedCount row = c_selectedCount (w_store w r) \<and>
       (us_Active row \<longleftrightarrow> rr_hasActive rr \<and> i = nat (rr_activeIdx rr)))"
proof -
  have "0 \<le> rr_activeIdx rr" using assms by (auto simp: pool_wf_def cursor_wf_def split: if_splits)
  then have idx: "int i = rr_activeIdx rr \<longleftrightarrow> i = nat (rr_activeIdx rr)" for i by auto
  have wf: "client_wf (w_store w (rr_servers rr ! i))" if "i < length (rr_servers rr)" for i
    using assms that by (simp add: pool_wf_def servers_wf_def)
  then have "st_Addr (Stats (w_store w (rr_servers rr ! i))) = addr_of w (rr_servers rr ! i) \<and>
      st_Healthy (Stats (w_store w (rr_servers rr ! i))) = up w (rr_servers rr ! i)"
    if "i < length (rr_servers rr)" for i
    using that client_wf_healthy [OF wf [OF that]]
    by (auto simp: Stats_def addr_of_def ServerAddr_def up_def client_wf_def split: option.splits)
  then show ?thesis
    using stats_from_nth [of rr w 0 "rr_servers rr"] idx
    by (simp add: StatsSnapshot_def Let_def Stats_def)
qed

theorem StatsSnapshot_rows_witness:
  "length (StatsSnapshot (sample_active 2 abc) (sample_world abc ())) = 3"
proof -
  have wf: "pool_wf (sample_active 2 abc) (sample_world abc ())" by (rule sample_active_wf) simp
  show ?thesis using StatsSnapshot_rows [OF wf] by simp
qed

end
