(* ===== verification/PoolSystem.thy ===== *)
theory PoolSystem
  imports HealthChecks
begin

text \<open>
  The pool as the rest of the program sees it: any number of goroutines call its methods in any
  order, each under the pool's lock, so a history of the pool is a sequence of the steps below.
\<close>

text \<open>
  \<open>add_lazy\<close> and \<open>add_connected\<close> allocate a new client, at a reference the pool does not list.
\<close>

inductive pool_step :: "env \<Rightarrow> 't RoundRobin \<times> 't world \<Rightarrow> 't RoundRobin \<times> 't world \<Rightarrow> bool"
  for E :: env where
  add_lazy: "r \<notin> set (rr_servers rr) \<Longrightarrow>
     pool_step E (rr, w)
       (Add r rr, w\<lparr>w_store := (w_store w)(r := NewSSHClientLazy (Some s))\<rparr>)"
| add_connected: "r \<notin> set (rr_servers rr) \<Longrightarrow> NewSSHClient E s (w_tick w) = (Inr c, n) \<Longrightarrow>
     pool_step E (rr, w) (Add r rr, w\<lparr>w_store := (w_store w)(r := c), w_tick := n\<rparr>)"
| select: "GetForTarget E t ex rr w = (res, rr', w') \<Longrightarrow> pool_step E (rr, w) (rr', w')"
| remove: "Remove E r rr w = (rr', w') \<Longrightarrow> pool_step E (rr, w) (rr', w')"
| close_all: "CloseAll E rr w = (rr', w') \<Longrightarrow> pool_step E (rr, w) (rr', w')"
| report_failure: "ReportTargetFailure E c t threshold ttl err rr w = (rr', w') \<Longrightarrow>
     pool_step E (rr, w) (rr', w')"
| report_success: "pool_step E (rr, w) (ReportTargetSuccess c t rr w, w)"
| cleanup: "CleanupExpiredTargets E rr w = (rr', w') \<Longrightarrow> pool_step E (rr, w) (rr', w')"
| health: "RunHealthChecks E rr w = (rep, rr', w') \<Longrightarrow> pool_step E (rr, w) (rr', w')"
| tick: "pool_step E (rr, w) (rr, w\<lparr>w_tick := n, w_cb := t\<rparr>)"

inductive_cases pool_stepE: "pool_step E (rr, w) (rr', w')"

inductive pool_reachable ::
    "env \<Rightarrow> string \<Rightarrow> int \<Rightarrow> 't world \<Rightarrow> 't RoundRobin \<times> 't world \<Rightarrow> bool"
  for E :: env and strategy :: string and k :: int and w0 :: "'t world" where
  start: "pool_reachable E strategy k w0 (NewRoundRobin strategy k, w0)"
| step: "pool_reachable E strategy k w0 p \<Longrightarrow> pool_step E p p' \<Longrightarrow> pool_reachable E strategy k w0 p'"

definition pool_ok :: "string \<Rightarrow> int \<Rightarrow> 't RoundRobin \<times> 't world \<Rightarrow> bool" where
  "pool_ok strategy k p \<longleftrightarrow>
     pool_wf (fst p) (snd p) \<and> distinct (rr_servers (fst p)) \<and>
     rr_strategy (fst p) = normalizeStrategy strategy \<and>
     rr_maxActive (fst p) = (if k \<le> 0 then 1 else k)"

text \<open>Storing a new client under a reference the pool does not list changes no listed client.\<close>

lemma add_client_wf:
  assumes "pool_wf rr w" and "r \<notin> set (rr_servers rr)" and "client_wf c"
  shows "pool_wf (Add r rr) (w\<lparr>w_store := (w_store w)(r := c), w_tick := n\<rparr>)"
    and "pool_wf (Add r rr) (w\<lparr>w_store := (w_store w)(r := c)\<rparr>)"
  using assms
  by (auto simp: pool_wf_def servers_wf_def cursor_wf_def Add_def split: if_splits)

lemma Remove_servers:
  "Remove E r rr w = (rr', w') \<Longrightarrow>
   rr_servers rr' = remove1 r (rr_servers rr) \<and> rr_strategy rr' = rr_strategy rr \<and>
   rr_maxActive rr' = rr_maxActive rr"
  by (cases "index_of r (rr_servers rr)")
    (auto simp: Remove_def Let_def index_of_None remove1_idem index_of_remove1 split: if_splits
      dest: index_of_remove1)

lemma RunHealthChecks_params:
  "RunHealthChecks E rr w = (rep, rr', w') \<Longrightarrow>
   rr_strategy rr' = rr_strategy rr \<and> rr_maxActive rr' = rr_maxActive rr"
  by (auto simp: RunHealthChecks_def Let_def split: if_splits prod.splits option.splits)

lemma pool_step_ok:
  assumes "ssh_library_ok E" and "pool_step E p p'" and "pool_ok strategy k p"
  shows "pool_ok strategy k p'"
  using assms(2,3)
proof (induction rule: pool_step.induct)
  case (add_lazy r rr w s)
  then show ?case
    using add_client_wf(2) [of rr w r "NewSSHClientLazy (Some s)"] NewSSHClientLazy_wf(1)
    by (simp add: pool_ok_def Add_def)
next
  case (add_connected r rr s w c n)
  then show ?case
    using add_client_wf(1) [of rr w r c n] NewSSHClient_wf(1) [OF assms(1)]
    by (simp add: pool_ok_def Add_def)
next
  case (select t ex rr w res rr' w')
  then show ?case
    using GetForTarget_frame [OF assms(1), of rr w t ex res rr' w']
    by (simp add: pool_ok_def scan_frame_def)
next
  case (remove r rr w rr' w')
  then show ?case
    using Remove_wf Remove_servers by (fastforce simp: pool_ok_def)
next
  case (close_all rr w rr' w')
  then show ?case
    using CloseAll_wf [of rr w E rr' w'] by (auto simp: pool_ok_def CloseAll_def)
next
  case (report_failure c t threshold ttl err rr w rr' w')
  from ReportTargetFailure_frame(1) [OF this(1)]
  have "rr_servers rr' = rr_servers rr \<and> rr_strategy rr' = rr_strategy rr \<and>
      rr_maxActive rr' = rr_maxActive rr" by (cases rr') simp
  with report_failure ReportTargetFailure_wf [OF report_failure(1)] show ?case
    by (simp add: pool_ok_def)
next
  case (report_success rr w c t)
  then show ?case
    by (simp add: pool_ok_def ReportTargetSuccess_wf)
      (simp add: ReportTargetSuccess_def split: option.split)
next
  case (cleanup rr w rr' w')
  then show ?case using CleanupExpiredTargets_wf [of E rr w rr' w']
    by (auto simp: pool_ok_def CleanupExpiredTargets_def now_at_def)
next
  case (health rr w rep rr' w')
  then show ?case
    using RunHealthChecks_wf [OF assms(1), of rr w rep rr' w'] RunHealthChecks_params [OF health(1)]
    by (simp add: pool_ok_def)
next
  case (tick rr w n t)
  then show ?case by (simp add: pool_ok_def pool_wf_def servers_wf_def)
qed

section \<open>Properties\<close>



end
