(* ===== verification/StatusTracker.thy ===== *)
theory StatusTracker
  imports Env "HOL-Library.AList"
begin

text \<open>
  The record of successes and failures per upstream (\<open>internal/status/serverstatus.go\<close>). The map
  of entries is an association list with distinct keys; its order stands for the iteration order
  of the Go map, which the language leaves open. An entry is a pointer, which is nil when a
  status file said \<open>null\<close>; following it is a panic. Log lines are not modelled.
\<close>

datatype go_panic = NilDereference | CloseOfClosedChannel | NonPositiveTicker

record ServerStatusEntry =
  e_Addr :: string
  e_Status :: string
  e_LastChecked :: time
  e_ConsecutiveOK :: int
  e_ConsecutiveFail :: int
  e_TotalSuccess :: "64 word"
  e_TotalFail :: "64 word"
  e_LastError :: string

type_synonym entry_map = "(string \<times> ServerStatusEntry option) list"

record ServerStatusTracker =
  t_entries :: entry_map
  t_filePath :: string
  t_logChanges :: bool
  t_flushInterval :: duration
  t_stopped :: bool

definition NewServerStatusTracker :: "string \<Rightarrow> bool \<Rightarrow> duration \<Rightarrow> ServerStatusTracker" where
  "NewServerStatusTracker filePath logChanges flushInterval =
     \<lparr>t_entries = [], t_filePath = filePath, t_logChanges = logChanges,
      t_flushInterval = (if flushInterval \<le> 0 then 30 * second else flushInterval),
      t_stopped = False\<rparr>"

text \<open>The pointer to the entry, and the tracker, which has a new entry when there was none.\<close>

definition getOrCreateEntry :: "string \<Rightarrow> ServerStatusTracker \<Rightarrow> ServerStatusEntry option \<times> ServerStatusTracker" where
  "getOrCreateEntry addr t =
     (case map_of (t_entries t) addr of
        Some entry \<Rightarrow> (entry, t)
      | None \<Rightarrow>
          (let entry = Some \<lparr>e_Addr = addr, e_Status = ''success'', e_LastChecked = zero_time,
                             e_ConsecutiveOK = 0, e_ConsecutiveFail = 0, e_TotalSuccess = 0,
                             e_TotalFail = 0, e_LastError = ''''\<rparr>
           in (entry, t\<lparr>t_entries := AList.update addr entry (t_entries t)\<rparr>)))"

definition RecordSuccess ::
    "env \<Rightarrow> string \<Rightarrow> ServerStatusTracker \<Rightarrow> tick \<Rightarrow> (go_panic + ServerStatusTracker) \<times> tick" where
  "RecordSuccess E addr t n =
     (case getOrCreateEntry addr t of
        (None, t1) \<Rightarrow> (Inl NilDereference, n)
      | (Some entry, t1) \<Rightarrow>
          (Inr (t1\<lparr>t_entries := AList.update addr (Some
             (entry\<lparr>e_Status := ''success'',
                    e_LastChecked := time_now E n,
                    e_ConsecutiveOK := go_int (e_ConsecutiveOK entry + 1),
                    e_ConsecutiveFail := 0,
                    e_TotalSuccess := e_TotalSuccess entry + 1,
                    e_LastError := ''''\<rparr>)) (t_entries t1)\<rparr>), Suc n))"

definition RecordFail ::
    "env \<Rightarrow> string \<Rightarrow> go_error option \<Rightarrow> ServerStatusTracker \<Rightarrow> tick \<Rightarrow>
     (go_panic + ServerStatusTracker) \<times> tick" where
  "RecordFail E addr err t n =
     (case getOrCreateEntry addr t of
        (None, t1) \<Rightarrow> (Inl NilDereference, n)
      | (Some entry, t1) \<Rightarrow>
          (Inr (t1\<lparr>t_entries := AList.update addr (Some
             (entry\<lparr>e_Status := ''fail'',
                    e_LastChecked := time_now E n,
                    e_ConsecutiveFail := go_int (e_ConsecutiveFail entry + 1),
                    e_ConsecutiveOK := 0,
                    e_TotalFail := e_TotalFail entry + 1,
                    e_LastError := (case err of None \<Rightarrow> e_LastError entry | Some e \<Rightarrow> Error e)\<rparr>))
             (t_entries t1)\<rparr>), Suc n))"

text \<open>The addresses whose entries satisfy a test; a nil entry on the way is a panic.\<close>

fun collect_entries ::
    "(ServerStatusEntry \<Rightarrow> 'a option) \<Rightarrow> entry_map \<Rightarrow> go_panic + (string \<times> 'a) list" where
  "collect_entries f [] = Inr []"
| "collect_entries f ((addr, None) # es) = Inl NilDereference"
| "collect_entries f ((addr, Some entry) # es) =
     (case collect_entries f es of
        Inl p \<Rightarrow> Inl p
      | Inr rest \<Rightarrow> Inr (case f entry of None \<Rightarrow> rest | Some x \<Rightarrow> (addr, x) # rest))"

definition GetDeprioritized :: "int \<Rightarrow> ServerStatusTracker \<Rightarrow> go_panic + string list" where
  "GetDeprioritized threshold t =
     (let threshold1 = (if threshold \<le> 0 then 5 else threshold) in
      map_sum id (map fst) (collect_entries
        (\<lambda>entry. if threshold1 \<le> e_ConsecutiveFail entry then Some () else None) (t_entries t)))"

definition GetEntry :: "string \<Rightarrow> ServerStatusTracker \<Rightarrow> go_panic + ServerStatusEntry option" where
  "GetEntry addr t =
     (case map_of (t_entries t) addr of
        None \<Rightarrow> Inr None
      | Some None \<Rightarrow> Inl NilDereference
      | Some (Some entry) \<Rightarrow> Inr (Some entry))"

definition Snapshot :: "ServerStatusTracker \<Rightarrow> go_panic + (string \<times> ServerStatusEntry) list" where
  "Snapshot t = collect_entries Some (t_entries t)"

definition SeedTargetFailures :: "int \<Rightarrow> ServerStatusTracker \<Rightarrow> go_panic + (string \<times> int) list" where
  "SeedTargetFailures failThreshold t =
     (let threshold1 = (if failThreshold \<le> 0 then 5 else failThreshold) in
      collect_entries (\<lambda>entry. if threshold1 \<le> e_ConsecutiveFail entry
                               then Some (e_ConsecutiveFail entry) else None) (t_entries t))"

section \<open>Well-formed trackers\<close>

text \<open>No nil entry, and distinct keys.\<close>

definition tracker_wf :: "ServerStatusTracker \<Rightarrow> bool" where
  "tracker_wf t \<longleftrightarrow> distinct (map fst (t_entries t)) \<and> (\<forall>(a, e) \<in> set (t_entries t). e \<noteq> None)"

definition entry_of :: "ServerStatusTracker \<Rightarrow> string \<Rightarrow> ServerStatusEntry option" where
  "entry_of t a = (case map_of (t_entries t) a of None \<Rightarrow> None | Some e \<Rightarrow> e)"

lemma tracker_wf_map_of: "tracker_wf t \<Longrightarrow> map_of (t_entries t) a \<noteq> Some None"
  by (auto simp: tracker_wf_def dest: map_of_SomeD)

lemma tracker_wf_iff:
  "tracker_wf t \<longleftrightarrow> distinct (map fst (t_entries t)) \<and> (\<forall>a. map_of (t_entries t) a \<noteq> Some None)"
proof (cases "distinct (map fst (t_entries t))")
  case True
  then show ?thesis by (auto simp: tracker_wf_def map_of_eq_Some_iff) (metis not_None_eq)
qed (simp add: tracker_wf_def)

lemma tracker_wf_update:
  "tracker_wf t \<Longrightarrow> tracker_wf (t\<lparr>t_entries := AList.update a (Some e) (t_entries t)\<rparr>)"
  by (simp add: tracker_wf_iff distinct_update update_conv')

lemma entry_of_update [simp]:
  "entry_of (t\<lparr>t_entries := AList.update a (Some e) es\<rparr>) b =
     (if b = a then Some e else entry_of (t\<lparr>t_entries := es\<rparr>) b)"
  by (simp add: entry_of_def update_conv')

lemma entry_of_same [simp]: "entry_of (t\<lparr>t_entries := t_entries t\<rparr>) = entry_of t"
  by simp

lemma NewServerStatusTracker_wf [simp]: "tracker_wf (NewServerStatusTracker p l i)"
  by (simp add: NewServerStatusTracker_def tracker_wf_def)

text \<open>On a well-formed tracker both record operations succeed, and change one entry.\<close>

definition fresh_entry :: "string \<Rightarrow> ServerStatusEntry" where
  "fresh_entry addr = \<lparr>e_Addr = addr, e_Status = ''success'', e_LastChecked = zero_time,
     e_ConsecutiveOK = 0, e_ConsecutiveFail = 0, e_TotalSuccess = 0, e_TotalFail = 0,
     e_LastError = ''''\<rparr>"

definition current_entry :: "ServerStatusTracker \<Rightarrow> string \<Rightarrow> ServerStatusEntry" where
  "current_entry t a = (case entry_of t a of None \<Rightarrow> fresh_entry a | Some e \<Rightarrow> e)"

lemma getOrCreateEntry_wf:
  assumes "tracker_wf t"
  obtains t1 where "getOrCreateEntry a t = (Some (current_entry t a), t1)" and "tracker_wf t1"
    and "\<And>b. b \<noteq> a \<Longrightarrow> entry_of t1 b = entry_of t b"
    and "t1 = t\<lparr>t_entries := t_entries t1\<rparr>"
proof (cases "map_of (t_entries t) a")
  case None
  then show ?thesis
    using tracker_wf_update [OF assms, of a "fresh_entry a"]
    by (intro that [of "t\<lparr>t_entries := AList.update a (Some (fresh_entry a)) (t_entries t)\<rparr>"])
      (simp_all add: getOrCreateEntry_def current_entry_def entry_of_def fresh_entry_def Let_def update_conv')
next
  case (Some e)
  then obtain x where "e = Some x" using tracker_wf_map_of [OF assms, of a] by (cases e) auto
  then show ?thesis
    using Some assms
    by (intro that [of t]) (simp_all add: getOrCreateEntry_def current_entry_def entry_of_def)
qed

definition after_success :: "time \<Rightarrow> ServerStatusEntry \<Rightarrow> ServerStatusEntry" where
  "after_success now e = e\<lparr>e_Status := ''success'', e_LastChecked := now,
     e_ConsecutiveOK := go_int (e_ConsecutiveOK e + 1), e_ConsecutiveFail := 0,
     e_TotalSuccess := e_TotalSuccess e + 1, e_LastError := ''''\<rparr>"

definition after_fail :: "time \<Rightarrow> go_error option \<Rightarrow> ServerStatusEntry \<Rightarrow> ServerStatusEntry" where
  "after_fail now err e = e\<lparr>e_Status := ''fail'', e_LastChecked := now,
     e_ConsecutiveFail := go_int (e_ConsecutiveFail e + 1), e_ConsecutiveOK := 0,
     e_TotalFail := e_TotalFail e + 1,
     e_LastError := (case err of None \<Rightarrow> e_LastError e | Some x \<Rightarrow> Error x)\<rparr>"

lemma RecordSuccess_wf:
  assumes "tracker_wf t"
  obtains t1 where "RecordSuccess E a t n = (Inr t1, Suc n)" and "tracker_wf t1"
    and "\<And>b. entry_of t1 b = (if b = a then Some (after_success (time_now E n) (current_entry t a)) else entry_of t b)"
proof -
  from getOrCreateEntry_wf [OF assms, of a] obtain t1 where
    g: "getOrCreateEntry a t = (Some (current_entry t a), t1)" "tracker_wf t1"
      "\<And>b. b \<noteq> a \<Longrightarrow> entry_of t1 b = entry_of t b" by metis
  show ?thesis
    by (rule that [of "t1\<lparr>t_entries := AList.update a (Some (after_success (time_now E n)
          (current_entry t a))) (t_entries t1)\<rparr>"])
      (use g tracker_wf_update in \<open>simp_all add: RecordSuccess_def after_success_def\<close>)
qed

lemma RecordFail_wf:
  assumes "tracker_wf t"
  obtains t1 where "RecordFail E a err t n = (Inr t1, Suc n)" and "tracker_wf t1"
    and "\<And>b. entry_of t1 b = (if b = a then Some (after_fail (time_now E n) err (current_entry t a)) else entry_of t b)"
proof -
  from getOrCreateEntry_wf [OF assms, of a] obtain t1 where
    g: "getOrCreateEntry a t = (Some (current_entry t a), t1)" "tracker_wf t1"
      "\<And>b. b \<noteq> a \<Longrightarrow> entry_of t1 b = entry_of t b" by metis
  show ?thesis
    by (rule that [of "t1\<lparr>t_entries := AList.update a (Some (after_fail (time_now E n) err
          (current_entry t a))) (t_entries t1)\<rparr>"])
      (use g tracker_wf_update in \<open>simp_all add: RecordFail_def after_fail_def\<close>)
qed

section \<open>The history a tracker stands for\<close>

text \<open>
  The abstract view: the list of outcomes recorded for each address. The counters of an entry
  are functions of that list.
\<close>

datatype outcome = Succeeded | Failed "go_error option"

fun record_outcome ::
    "env \<Rightarrow> string \<times> outcome \<Rightarrow> ServerStatusTracker \<Rightarrow> tick \<Rightarrow> (go_panic + ServerStatusTracker) \<times> tick" where
  "record_outcome E (a, Succeeded) t n = RecordSuccess E a t n"
| "record_outcome E (a, Failed err) t n = RecordFail E a err t n"

fun record_all ::
    "env \<Rightarrow> (string \<times> outcome) list \<Rightarrow> ServerStatusTracker \<Rightarrow> tick \<Rightarrow>
     (go_panic + ServerStatusTracker) \<times> tick" where
  "record_all E [] t n = (Inr t, n)"
| "record_all E (e # es) t n =
     (case record_outcome E e t n of
        (Inl p, n1) \<Rightarrow> (Inl p, n1)
      | (Inr t1, n1) \<Rightarrow> record_all E es t1 n1)"

definition history :: "string \<Rightarrow> (string \<times> outcome) list \<Rightarrow> outcome list" where
  "history a es = map snd (filter (\<lambda>e. fst e = a) es)"

definition streak :: "(outcome \<Rightarrow> bool) \<Rightarrow> outcome list \<Rightarrow> nat" where
  "streak P h = length (takeWhile P (rev h))"

definition failed :: "outcome \<Rightarrow> bool" where
  "failed x \<longleftrightarrow> x \<noteq> Succeeded"

text \<open>An entry that represents a history.\<close>

definition represents :: "string \<Rightarrow> outcome list \<Rightarrow> ServerStatusEntry \<Rightarrow> bool" where
  "represents a h e \<longleftrightarrow>
     e_Addr e = a \<and>
     e_ConsecutiveOK e = int (streak (Not \<circ> failed) h) \<and>
     e_ConsecutiveFail e = int (streak failed h) \<and>
     e_TotalSuccess e = word_of_nat (length (filter (Not \<circ> failed) h)) \<and>
     e_TotalFail e = word_of_nat (length (filter failed h)) \<and>
     e_Status e = (if h \<noteq> [] \<and> failed (last h) then ''fail'' else ''success'') \<and>
     (h = [] \<or> \<not> failed (last h) \<longrightarrow> e_LastError e = '''') \<and>
     (\<forall>x. h \<noteq> [] \<and> last h = Failed (Some x) \<longrightarrow> e_LastError e = Error x)"

lemma streak_snoc [simp]: "streak P (h @ [x]) = (if P x then Suc (streak P h) else 0)"
  by (simp add: streak_def)

lemma streak_bound: "streak P h \<le> length h"
  unfolding streak_def using length_takeWhile_le [of P "rev h"] by simp

lemma represents_fresh [simp]: "represents a [] (fresh_entry a)"
  by (simp add: represents_def fresh_entry_def streak_def)

lemma represents_success:
  assumes "represents a h e" and "Suc (length h) < 2 ^ 63"
  shows "represents a (h @ [Succeeded]) (after_success now e)"
proof -
  have "go_int (1 + int (streak (Not \<circ> failed) h)) = 1 + int (streak (Not \<circ> failed) h)"
    using streak_bound [of "Not \<circ> failed" h] assms(2) by (intro go_int_id) auto
  then show ?thesis
    using assms(1) by (simp add: represents_def after_success_def failed_def add.commute)
qed

lemma represents_fail:
  assumes "represents a h e" and "Suc (length h) < 2 ^ 63"
  shows "represents a (h @ [Failed err]) (after_fail now err e)"
proof -
  have "go_int (1 + int (streak failed h)) = 1 + int (streak failed h)"
    using streak_bound [of failed h] assms(2) by (intro go_int_id) auto
  then show ?thesis
    using assms(1) by (auto simp: represents_def after_fail_def failed_def add.commute)
qed

text \<open>The relation between a tracker and the recorded events.\<close>

definition tracks :: "(string \<times> outcome) list \<Rightarrow> ServerStatusTracker \<Rightarrow> bool" where
  "tracks es t \<longleftrightarrow> tracker_wf t \<and>
     (\<forall>a. (entry_of t a = None \<longleftrightarrow> history a es = []) \<and> represents a (history a es) (current_entry t a))"

lemma history_snoc: "history a (es @ [(b, x)]) = (if a = b then history a es @ [x] else history a es)"
  by (simp add: history_def)

lemma history_length: "length (history a es) \<le> length es"
  by (simp add: history_def)

lemma record_outcome_tracks:
  assumes "tracks es t" and "Suc (length es) < 2 ^ 63"
  obtains t1 where "record_outcome E (b, x) t n = (Inr t1, Suc n)" and "tracks (es @ [(b, x)]) t1"
proof -
  have wf: "tracker_wf t" and rep: "\<And>a. represents a (history a es) (current_entry t a)"
    and none: "\<And>a. entry_of t a = None \<longleftrightarrow> history a es = []"
    using assms(1) by (simp_all add: tracks_def)
  have len: "Suc (length (history b es)) < 2 ^ 63"
    using history_length [of b es] assms(2) by linarith
  show ?thesis
  proof (cases x)
    case Succeeded
    obtain t1 where t1: "RecordSuccess E b t n = (Inr t1, Suc n)" "tracker_wf t1"
      "\<And>a. entry_of t1 a = (if a = b then Some (after_success (time_now E n) (current_entry t b))
        else entry_of t a)" using RecordSuccess_wf [OF wf] by metis
    have "tracks (es @ [(b, x)]) t1"
      using t1 rep none represents_success [OF rep len] Succeeded
      by (simp add: tracks_def history_snoc current_entry_def)
    then show ?thesis using t1(1) Succeeded by (intro that) simp_all
  next
    case (Failed err)
    obtain t1 where t1: "RecordFail E b err t n = (Inr t1, Suc n)" "tracker_wf t1"
      "\<And>a. entry_of t1 a = (if a = b then Some (after_fail (time_now E n) err (current_entry t b))
        else entry_of t a)" using RecordFail_wf [OF wf] by metis
    have "tracks (es @ [(b, x)]) t1"
      using t1 rep none represents_fail [OF rep len] Failed
      by (simp add: tracks_def history_snoc current_entry_def)
    then show ?thesis using t1(1) Failed by (intro that) simp_all
  qed
qed

lemma record_all_tracks:
  assumes "tracks es t" and "length es + length fs < 2 ^ 63"
  shows "\<exists>t'. record_all E fs t n = (Inr t', n + length fs) \<and> tracks (es @ fs) t'"
  using assms
proof (induction fs arbitrary: es t n)
  case (Cons f fs)
  obtain b x where f: "f = (b, x)" by (cases f)
  obtain t1 where t1: "record_outcome E (b, x) t n = (Inr t1, Suc n)" "tracks (es @ [(b, x)]) t1"
    using record_outcome_tracks [OF Cons.prems(1), of E b x n] Cons.prems(2) by auto
  from Cons.IH [OF t1(2), of "Suc n"] Cons.prems(2) t1(1) show ?case by (auto simp: f)
qed simp

lemma tracks_new: "tracks [] (NewServerStatusTracker p l i)"
  by (simp add: tracks_def history_def current_entry_def entry_of_def)
    (simp add: NewServerStatusTracker_def)

lemma collect_entries_wf:
  assumes "distinct (map fst es)" and "\<forall>(a, e) \<in> set es. e \<noteq> None"
  shows "\<exists>xs. collect_entries f es = Inr xs \<and> distinct (map fst xs) \<and>
    set xs = {(a, x). \<exists>e. map_of es a = Some (Some e) \<and> f e = Some x}"
  using assms
proof (induction es)
  case (Cons ae es)
  obtain a e where ae: "ae = (a, Some e)" using Cons.prems(2) by (cases ae) auto
  from Cons obtain xs where xs: "collect_entries f es = Inr xs" "distinct (map fst xs)"
    "set xs = {(a, x). \<exists>e. map_of es a = Some (Some e) \<and> f e = Some x}" by auto
  have a: "map_of es a = None" using Cons.prems(1) by (simp add: ae map_of_eq_None_iff)
  then have "a \<notin> fst ` set xs" by (auto simp: xs(3))
  then show ?case
    using xs a by (cases "f e") (auto simp: ae split: if_splits)
qed simp

lemma collect_entries_tracker:
  assumes "tracker_wf t"
  shows "\<exists>xs. collect_entries f (t_entries t) = Inr xs \<and> distinct (map fst xs) \<and>
    set xs = {(a, x). \<exists>e. entry_of t a = Some e \<and> f e = Some x}"
proof -
  have "map_of (t_entries t) a = Some (Some e) \<longleftrightarrow> entry_of t a = Some e" for a e
    by (simp add: entry_of_def split: option.split)
  then show ?thesis using collect_entries_wf [of "t_entries t" f] assms by (simp add: tracker_wf_def)
qed

section \<open>Properties\<close>

text \<open>C19: The tracker implements the history of recorded outcomes: after any sequence of fewer
  than \<open>2 ^ 63\<close> recordings an address has an entry exactly when something was recorded for it,
  and then the entry's counters are the lengths of the current runs of successes and failures
  and the total numbers of both, and its status and error text are those of the last outcome.\<close>

theorem tracker_refines_history:
  assumes "length es < 2 ^ 63"
  shows "\<exists>t. record_all E es (NewServerStatusTracker path logs every) n = (Inr t, n + length es) \<and>
    (\<forall>a. case GetEntry a t of
       Inl p \<Rightarrow> False
     | Inr None \<Rightarrow> history a es = []
     | Inr (Some e) \<Rightarrow> history a es \<noteq> [] \<and> represents a (history a es) e)"
proof -
  obtain t where t: "record_all E es (NewServerStatusTracker path logs every) n = (Inr t, n + length es)"
    "tracks es t"
    using record_all_tracks [OF tracks_new, of es E path logs every n] assms by auto
  have "case GetEntry a t of Inl p \<Rightarrow> False | Inr None \<Rightarrow> history a es = []
     | Inr (Some e) \<Rightarrow> history a es \<noteq> [] \<and> represents a (history a es) e" for a
  proof -
    have a: "entry_of t a = None \<longleftrightarrow> history a es = []" "represents a (history a es) (current_entry t a)"
      "map_of (t_entries t) a \<noteq> Some None"
      using t(2) tracker_wf_map_of by (auto simp: tracks_def)
    show ?thesis
    proof (cases "map_of (t_entries t) a")
      case None
      then show ?thesis using a(1) by (simp add: GetEntry_def entry_of_def)
    next
      case (Some e)
      with a(3) obtain x where "e = Some x" by (cases e) auto
      with Some a(1,2) show ?thesis by (simp add: GetEntry_def entry_of_def current_entry_def)
    qed
  qed
  with t(1) show ?thesis by blast
qed

theorem tracker_refines_history_witness:
  "\<exists>t. record_all (sample_env []) [(''a'', Failed None), (''b'', Succeeded), (''a'', Failed None)]
     (NewServerStatusTracker '''' False 0) 0 = (Inr t, 3)"
  using tracker_refines_history [of "[(''a'', Failed None), (''b'', Succeeded), (''a'', Failed None)]"
      "sample_env []" "''''" False 0 0] by auto

text \<open>\<open>GetDeprioritized\<close> lists, without repetition, exactly the addresses whose current run of
  failures reaches the threshold, which is 5 when none is given.\<close>

theorem GetDeprioritized_exact:
  assumes "length es < 2 ^ 63"
  shows "\<exists>t as. record_all E es (NewServerStatusTracker path logs every) n = (Inr t, n + length es) \<and>
    GetDeprioritized threshold t = Inr as \<and> distinct as \<and>
    set as = {a. (if threshold \<le> 0 then 5 else threshold) \<le> int (streak failed (history a es))}"
proof -
  let ?k = "if threshold \<le> 0 then 5 else threshold"
  obtain t where t: "record_all E es (NewServerStatusTracker path logs every) n = (Inr t, n + length es)"
    "tracks es t"
    using record_all_tracks [OF tracks_new, of es E path logs every n] assms by auto
  from t(2) have wf: "tracker_wf t"
    and none: "\<And>a. entry_of t a = None \<longleftrightarrow> history a es = []"
    and rep: "\<And>a. represents a (history a es) (current_entry t a)" by (simp_all add: tracks_def)
  define f where "f = (\<lambda>e :: ServerStatusEntry. if ?k \<le> e_ConsecutiveFail e then Some () else None)"
  obtain xs where xs: "collect_entries f (t_entries t) = Inr xs" "distinct (map fst xs)"
    "set xs = {(a, x). \<exists>e. entry_of t a = Some e \<and> f e = Some x}"
    using collect_entries_tracker [OF wf] by metis
  have "fst ` set xs = {a. \<exists>e. entry_of t a = Some e \<and> f e = Some ()}"
    by (force simp: xs(3))
  also have "\<dots> = {a. \<exists>e. entry_of t a = Some e \<and> ?k \<le> e_ConsecutiveFail e}"
    by (intro Collect_cong ex_cong) (simp add: f_def)
  also have "\<dots> = {a. ?k \<le> int (streak failed (history a es))}"
  proof (rule Collect_cong)
    fix a
    show "(\<exists>e. entry_of t a = Some e \<and> ?k \<le> e_ConsecutiveFail e) \<longleftrightarrow>
        ?k \<le> int (streak failed (history a es))"
      using none [of a] rep [of a]
      by (cases "entry_of t a") (auto simp: represents_def current_entry_def streak_def)
  qed
  finally show ?thesis
    using t(1) xs(1,2)
    by (intro exI [of _ t] exI [of _ "map fst xs"]) (simp add: GetDeprioritized_def Let_def f_def)
qed

theorem GetDeprioritized_exact_witness:
  "\<exists>t as. GetDeprioritized 2 t = Inr as \<and> set as =
     {a. 2 \<le> int (streak failed (history a [(''a'', Failed None), (''a'', Failed None)]))}"
  using GetDeprioritized_exact [of "[(''a'', Failed None), (''a'', Failed None)]" "sample_env []"
      "''''" False 0 0 2] by auto

end
