(* ===== verification/StatusFile.thy ===== *)
theory StatusFile
  imports StatusTracker
begin

text \<open>
  Saving and loading the tracker (\<open>internal/status/persistence.go\<close>). The file system is a map
  from paths to contents, changed by the four operations below; \<open>Flush\<close> returns the list of
  operations it performs, so that the state after a crash at any point can be stated. Whether
  an operation fails is up to the record \<open>disk\<close>; the JSON text is produced and read by
  \<open>json\<close>, the parameter that stands for \<open>encoding/json\<close>.
\<close>

section \<open>The file system\<close>

type_synonym fs = "string \<rightharpoonup> string"

datatype fs_op =
    CreateFile string
  | WriteFile string string
  | RenameFile string string
  | RemoveFile string

fun fs_apply :: "fs \<Rightarrow> fs_op \<Rightarrow> fs" where
  "fs_apply fs (CreateFile p) = fs(p \<mapsto> '''')"
| "fs_apply fs (WriteFile p data) = fs(p \<mapsto> data)"
| "fs_apply fs (RenameFile p q) = (fs(p := None))(q := fs p)"
| "fs_apply fs (RemoveFile p) = fs(p := None)"

definition fs_run :: "fs \<Rightarrow> fs_op list \<Rightarrow> fs" where
  "fs_run fs ops = foldl fs_apply fs ops"

text \<open>
  \<open>create_temp n p\<close> answers \<open>os.CreateTemp(filepath.Dir(p), pattern)\<close>: an error or the name of the
  new file. A failing write reports how many bytes it wrote.
\<close>

record disk =
  read_error :: "tick \<Rightarrow> go_error option"
  create_temp :: "tick \<Rightarrow> string \<Rightarrow> go_error + string"
  write_error :: "tick \<Rightarrow> (go_error \<times> nat) option"
  close_error :: "tick \<Rightarrow> go_error option"
  rename_error :: "tick \<Rightarrow> go_error option"
  remove_ok :: "tick \<Rightarrow> bool"

record statusFile =
  sf_UpdatedAt :: time
  sf_Servers :: entry_map

record json =
  MarshalIndent :: "statusFile \<Rightarrow> go_error + string"
  Unmarshal :: "string \<Rightarrow> go_error + statusFile"

definition ErrNotExist :: go_error where
  "ErrNotExist = Sentinel ''file does not exist''"

definition ReadFile :: "disk \<Rightarrow> string \<Rightarrow> fs \<Rightarrow> tick \<Rightarrow> go_error + string" where
  "ReadFile D path fs n =
     (case read_error D n of
        Some e \<Rightarrow> Inl e
      | None \<Rightarrow> (case fs path of None \<Rightarrow> Inl ErrNotExist | Some data \<Rightarrow> Inr data))"

section \<open>Load and Flush\<close>

definition Load ::
    "disk \<Rightarrow> json \<Rightarrow> ServerStatusTracker \<Rightarrow> fs \<Rightarrow> tick \<Rightarrow> go_error option \<times> ServerStatusTracker \<times> tick" where
  "Load D J t fs n =
     (if t_filePath t = '''' then (None, t, n)
      else
        (case ReadFile D (t_filePath t) fs n of
           Inl err \<Rightarrow>
             if errors_Is err ErrNotExist then (None, t, Suc n)
             else (Some (Errorf (''failed to read status file: '' @ Error err) (Some err)), t, Suc n)
         | Inr data \<Rightarrow>
             (case Unmarshal J data of
                Inl err \<Rightarrow>
                  (Some (Errorf (''failed to parse status file: '' @ Error err) (Some err)), t, Suc n)
              | Inr sf \<Rightarrow>
                  (None,
                   t\<lparr>t_entries :=
                       fold (\<lambda>(addr, entry). AList.update addr entry) (sf_Servers sf) (t_entries t)\<rparr>,
                   Suc n))))"

text \<open>
  A tick is spent on the clock, on creating, writing, closing, renaming and removing. Copying
  the entries follows their pointers.
\<close>

definition remove_temp :: "disk \<Rightarrow> string \<Rightarrow> tick \<Rightarrow> fs_op list" where
  "remove_temp D tmp n = (if remove_ok D n then [RemoveFile tmp] else [])"

definition Flush ::
    "env \<Rightarrow> disk \<Rightarrow> json \<Rightarrow> ServerStatusTracker \<Rightarrow> tick \<Rightarrow> (go_panic + go_error option) \<times> fs_op list \<times> tick" where
  "Flush E D J t n =
     (if t_filePath t = '''' then (Inr None, [], n)
      else
        (case collect_entries Some (t_entries t) of
           Inl p \<Rightarrow> (Inl p, [], Suc n)
         | Inr copies \<Rightarrow>
        (case MarshalIndent J \<lparr>sf_UpdatedAt = time_now E n,
                               sf_Servers = map (\<lambda>(a, e). (a, Some e)) copies\<rparr> of
           Inl err \<Rightarrow>
             (Inr (Some (Errorf (''failed to marshal status: '' @ Error err) (Some err))), [], n + 1)
         | Inr data \<Rightarrow>
        (case create_temp D (n + 1) (t_filePath t) of
           Inl err \<Rightarrow>
             (Inr (Some (Errorf (''failed to create temp file: '' @ Error err) (Some err))), [], n + 2)
         | Inr tmp \<Rightarrow>
        (case write_error D (n + 2) of
           Some (err, k) \<Rightarrow>
             (Inr (Some (Errorf (''failed to write status: '' @ Error err) (Some err))),
              [CreateFile tmp, WriteFile tmp (take k data)] @ remove_temp D tmp (n + 4), n + 5)
         | None \<Rightarrow>
        (case close_error D (n + 3) of
           Some err \<Rightarrow>
             (Inr (Some (Errorf (''failed to close temp file: '' @ Error err) (Some err))),
              [CreateFile tmp, WriteFile tmp data] @ remove_temp D tmp (n + 4), n + 5)
         | None \<Rightarrow>
        (case rename_error D (n + 4) of
           Some err \<Rightarrow>
             (Inr (Some (Errorf (''failed to rename status file: '' @ Error err) (Some err))),
              [CreateFile tmp, WriteFile tmp data] @ remove_temp D tmp (n + 5), n + 6)
         | None \<Rightarrow>
             (Inr None, [CreateFile tmp, WriteFile tmp data, RenameFile tmp (t_filePath t)], n + 5))))))))"

text \<open>Closing \<open>stopCh\<close> a second time is a panic.\<close>

definition Stop :: "ServerStatusTracker \<Rightarrow> go_panic + ServerStatusTracker" where
  "Stop t = (if t_stopped t then Inl CloseOfClosedChannel else Inr (t\<lparr>t_stopped := True\<rparr>))"

text \<open>
  The loop of \<open>StartPeriodicFlush\<close>: it reacts to the ticker, with the tracker as it is at that
  moment, and ends when \<open>stopCh\<close> is closed. The result is the file system, or a panic.
\<close>

datatype flush_event = Tick ServerStatusTracker | StopClosed

fun StartPeriodicFlush :: "env \<Rightarrow> disk \<Rightarrow> json \<Rightarrow> flush_event list \<Rightarrow> fs \<Rightarrow> tick \<Rightarrow> go_panic + fs" where
  "StartPeriodicFlush E D J [] fs n = Inr fs"
| "StartPeriodicFlush E D J (StopClosed # es) fs n = Inr fs"
| "StartPeriodicFlush E D J (Tick t # es) fs n =
     (case Flush E D J t n of
        (Inl p, ops, n1) \<Rightarrow> Inl p
      | (Inr err, ops, n1) \<Rightarrow> StartPeriodicFlush E D J es (fs_run fs ops) n1)"

section \<open>Assumptions on the surroundings\<close>

text \<open>
  \<open>os.CreateTemp\<close> makes a new file: its name is not taken and, having the pattern of a temporary
  name, is not the status file's.
\<close>

definition temp_ok :: "disk \<Rightarrow> fs \<Rightarrow> string \<Rightarrow> bool" where
  "temp_ok D fs path \<longleftrightarrow> (\<forall>n tmp. create_temp D n path = Inr tmp \<longrightarrow> fs tmp = None \<and> tmp \<noteq> path)"

text \<open>
  \<open>encoding/json\<close> reads back what it wrote when all strings are ASCII (others may be replaced):
  the same map, in some order, without repeated keys.
\<close>

definition ascii :: "string \<Rightarrow> bool" where
  "ascii s \<longleftrightarrow> list_all (\<lambda>c. of_char c < (128 :: nat)) s"

definition ascii_entry :: "ServerStatusEntry \<Rightarrow> bool" where
  "ascii_entry e \<longleftrightarrow> ascii (e_Addr e) \<and> ascii (e_Status e) \<and> ascii (e_LastError e)"

definition ascii_entries :: "entry_map \<Rightarrow> bool" where
  "ascii_entries es \<longleftrightarrow>
     list_all (\<lambda>(a, e). ascii a \<and> (case e of None \<Rightarrow> True | Some x \<Rightarrow> ascii_entry x)) es"

definition json_ok :: "json \<Rightarrow> bool" where
  "json_ok J \<longleftrightarrow>
     (\<forall>sf data. ascii_entries (sf_Servers sf) \<longrightarrow> distinct (map fst (sf_Servers sf)) \<longrightarrow>
        MarshalIndent J sf = Inr data \<longrightarrow>
        (\<exists>sf'. Unmarshal J data = Inr sf' \<and> sf_UpdatedAt sf' = sf_UpdatedAt sf \<and>
               distinct (map fst (sf_Servers sf')) \<and>
               map_of (sf_Servers sf') = map_of (sf_Servers sf)))"

section \<open>Properties\<close>

lemma fs_run_simps [simp]:
  "fs_run fs [] = fs" "fs_run fs (p # ps) = fs_run (fs_apply fs p) ps"
  by (simp_all add: fs_run_def)

text \<open>What \<open>Flush\<close> can do: nothing, a write that is given up, or a write followed by a rename.\<close>

lemma Flush_ops:
  assumes "Flush E D J t n = (res, ops, n1)" and "t_filePath t \<noteq> ''''"
  obtains (none) "ops = []" and "res \<noteq> Inr None"
  | (aborted) tmp part removed where "create_temp D (n + 1) (t_filePath t) = Inr tmp"
      and "ops = [CreateFile tmp, WriteFile tmp part] @ removed" and "res \<noteq> Inr None"
      and "removed = [] \<and> (\<exists>m. \<not> remove_ok D m) \<or> removed = [RemoveFile tmp]"
  | (renamed) tmp copies data where "create_temp D (n + 1) (t_filePath t) = Inr tmp"
      and "collect_entries Some (t_entries t) = Inr copies"
      and "MarshalIndent J \<lparr>sf_UpdatedAt = time_now E n,
             sf_Servers = map (\<lambda>(a, e). (a, Some e)) copies\<rparr> = Inr data"
      and "ops = [CreateFile tmp, WriteFile tmp data, RenameFile tmp (t_filePath t)]" and "res = Inr None"
proof -
  have rm: "remove_temp D tmp m = [] \<and> (\<exists>m. \<not> remove_ok D m) \<or> remove_temp D tmp m = [RemoveFile tmp]"
    for tmp m by (auto simp: remove_temp_def)
  show thesis
    using assms
    by (simp add: Flush_def split: sum.splits option.splits prod.splits)
      (auto intro: none aborted [OF _ _ _ rm] renamed)
qed

text \<open>C20: Saving is atomic: at every point of \<open>Flush\<close>, also after a crash there, the status file has
  its old contents or the complete new ones. It has the new ones exactly when \<open>Flush\<close> reports
  no error; existing other files are never touched; and when temporary files can be removed
  none is left behind.\<close>

theorem Flush_atomic:
  assumes "Flush E D J t n = (res, ops, n1)" and "t_filePath t \<noteq> ''''"
    and "temp_ok D fs (t_filePath t)"
  shows "(\<forall>k. fs_run fs (take k ops) (t_filePath t) = fs (t_filePath t) \<or>
           res = Inr None \<and> fs_run fs (take k ops) = fs_run fs ops) \<and>
    (if res = Inr None
     then \<exists>copies data. collect_entries Some (t_entries t) = Inr copies \<and>
       MarshalIndent J \<lparr>sf_UpdatedAt = time_now E n, sf_Servers = map (\<lambda>(a, e). (a, Some e)) copies\<rparr>
         = Inr data \<and> fs_run fs ops (t_filePath t) = Some data
     else fs_run fs ops (t_filePath t) = fs (t_filePath t)) \<and>
    (\<forall>k q. q \<noteq> t_filePath t \<longrightarrow> fs q \<noteq> None \<longrightarrow> fs_run fs (take k ops) q = fs q) \<and>
    ((\<forall>m. remove_ok D m) \<longrightarrow> (\<forall>q. q \<noteq> t_filePath t \<longrightarrow> fs_run fs ops q = fs q))"
  using assms(1,2)
proof (cases rule: Flush_ops)
  case none
  then show ?thesis by simp
next
  case (aborted tmp part removed)
  then have tmp: "fs tmp = None" "tmp \<noteq> t_filePath t" using assms(3) by (auto simp: temp_ok_def)
  have cut: "take k ops \<in> {[], [CreateFile tmp], [CreateFile tmp, WriteFile tmp part], ops}" for k
    using aborted(2,4) by (auto simp: take_Cons' take_eq_Nil)
  have path: "fs_run fs (take k ops) (t_filePath t) = fs (t_filePath t)" for k
    using cut [of k] aborted(2,4) tmp by auto
  moreover have "fs_run fs (take k ops) q = fs q" if "fs q \<noteq> None" for k q
    using cut [of k] aborted(2,4) tmp that by auto
  moreover have "fs_run fs ops q = fs q" if "\<forall>m. remove_ok D m" for q
    using aborted(2,4) tmp that by auto
  ultimately show ?thesis using aborted(3) path [of "length ops"] by simp
next
  case (renamed tmp copies data)
  then have tmp: "fs tmp = None" "tmp \<noteq> t_filePath t" using assms(3) by (auto simp: temp_ok_def)
  have cut: "take k ops \<in> {[], [CreateFile tmp], [CreateFile tmp, WriteFile tmp data], ops}" for k
    using renamed(4) by (auto simp: take_Cons')
  have "fs_run fs (take k ops) (t_filePath t) = fs (t_filePath t) \<or> fs_run fs (take k ops) = fs_run fs ops"
    for k using cut [of k] tmp by auto
  moreover have "fs_run fs (take k ops) q = fs q" if "q \<noteq> t_filePath t" "fs q \<noteq> None" for k q
    using cut [of k] renamed(4) tmp that by auto
  moreover have "fs_run fs ops q = fs q" if "q \<noteq> t_filePath t" for q
    using renamed(4) tmp that by auto
  moreover have "fs_run fs ops (t_filePath t) = Some data" using renamed(4) tmp by simp
  ultimately show ?thesis using renamed by auto
qed

text \<open>A disk without errors, and a JSON library that knows one tracker, for evaluation.\<close>

definition sample_disk :: disk where
  "sample_disk = \<lparr>read_error = (\<lambda>n. None), create_temp = (\<lambda>n p. Inr (p @ ''.tmp'')),
     write_error = (\<lambda>n. None), close_error = (\<lambda>n. None), rename_error = (\<lambda>n. None),
     remove_ok = (\<lambda>n. True)\<rparr>"

definition sample_json :: "statusFile \<Rightarrow> json" where
  "sample_json sf = \<lparr>MarshalIndent = (\<lambda>x. if x = sf then Inr ''data'' else Inl (Sentinel ''unknown'')),
     Unmarshal = (\<lambda>d. if d = ''data'' then Inr sf else Inl (Sentinel ''syntax''))\<rparr>"

lemma sample_json_ok: "json_ok (sample_json sf)"
  by (auto simp: json_ok_def sample_json_def split: if_splits)

lemma map_of_fold_update:
  "map_of (fold (\<lambda>(a, e). AList.update a e) xs ys) = map_of ys ++ map_of (rev xs)"
  by (induction xs arbitrary: ys) (auto simp: update_conv' map_add_def split: option.splits)

lemma map_of_rev_distinct: "distinct (map fst xs) \<Longrightarrow> map_of (rev xs) = map_of xs"
proof (rule map_of_eqI)
  assume d: "distinct (map fst xs)"
  then have "distinct (map fst (rev xs))" by (simp add: rev_map [symmetric])
  with d show "\<forall>a \<in> set (map fst (rev xs)). map_of (rev xs) a = map_of xs a"
    by (auto simp: map_of_eq_Some_iff)
qed simp

theorem Flush_atomic_witness:
  "fs_run (\<lambda>_. None) (take 2 (fst (snd (Flush (sample_env []) sample_disk
     (sample_json \<lparr>sf_UpdatedAt = 1700000000 * second, sf_Servers = []\<rparr>)
     (NewServerStatusTracker ''s.json'' False 0) 0)))) ''s.json'' = None \<or>
   fst (Flush (sample_env []) sample_disk (sample_json \<lparr>sf_UpdatedAt = 1700000000 * second, sf_Servers = []\<rparr>)
     (NewServerStatusTracker ''s.json'' False 0) 0) = Inr None"
  using Flush_atomic [OF triple [of "Flush (sample_env []) sample_disk
      (sample_json \<lparr>sf_UpdatedAt = 1700000000 * second, sf_Servers = []\<rparr>)
      (NewServerStatusTracker ''s.json'' False 0) 0"], of "\<lambda>_. None"]
  by (auto simp: temp_ok_def sample_disk_def NewServerStatusTracker_def)

lemma Load_entries:
  assumes "t_filePath t \<noteq> ''''" and "read_error D n = None" and "fs (t_filePath t) = Some data"
    and "Unmarshal J data = Inr sf" and "distinct (map fst (sf_Servers sf))"
  shows "\<exists>t'. Load D J t fs n = (None, t', Suc n) \<and>
    map_of (t_entries t') = map_of (t_entries t) ++ map_of (sf_Servers sf)"
  using assms by (simp add: Load_def ReadFile_def map_of_fold_update map_of_rev_distinct)

lemma map_of_map_Some: "map_of (map (\<lambda>(a, e). (a, Some e)) xs) = map_option Some \<circ> map_of xs"
  by (induction xs) auto

text \<open>The copies that \<open>Flush\<close> marshals are the entries of the tracker.\<close>

lemma copied_entries:
  assumes "tracker_wf t" and "collect_entries Some (t_entries t) = Inr copies"
  shows "distinct (map fst copies)"
    and "map_of (map (\<lambda>(a, e). (a, Some e)) copies) = map_of (t_entries t)"
    and "(a, e) \<in> set copies \<Longrightarrow> (a, Some e) \<in> set (t_entries t)"
proof -
  obtain xs where "collect_entries Some (t_entries t) = Inr xs" "distinct (map fst xs)"
    "set xs = {(a, x). \<exists>e. entry_of t a = Some e \<and> Some e = Some x}"
    using collect_entries_tracker [OF assms(1), of Some] by metis
  then have c: "distinct (map fst copies)" "set copies = {(a, x). entry_of t a = Some x}"
    using assms(2) by auto
  show "distinct (map fst copies)" by (rule c(1))
  show "map_of (map (\<lambda>(a, e). (a, Some e)) copies) = map_of (t_entries t)"
  proof
    fix a
    have "map_of copies a = entry_of t a"
      using c by (cases "entry_of t a") (auto simp: map_of_eq_None_iff image_iff)
    then show "map_of (map (\<lambda>(a, e). (a, Some e)) copies) a = map_of (t_entries t) a"
      using tracker_wf_map_of [OF assms(1), of a]
      by (auto simp: map_of_map_Some entry_of_def split: option.splits)
  qed
  show "(a, e) \<in> set copies \<Longrightarrow> (a, Some e) \<in> set (t_entries t)"
    using c(2) by (auto simp: entry_of_def dest: map_of_SomeD split: option.splits)
qed

text \<open>C21: What was saved is loaded: after a \<open>Flush\<close> without error, a new tracker on the same file
  loads exactly the entries that were saved, provided their strings are ASCII and the JSON
  library reads back what it wrote.\<close>

theorem Flush_Load_roundtrip:
  assumes "json_ok J" and "temp_ok D fs path" and "path \<noteq> ''''"
    and "tracker_wf t" and "t_filePath t = path" and "ascii_entries (t_entries t)"
    and "Flush E D J t n = (Inr None, ops, n1)" and "read_error D m = None"
  shows "\<exists>t'. Load D J (NewServerStatusTracker path logs every) (fs_run fs ops) m = (None, t', Suc m) \<and>
    (\<forall>a. GetEntry a t' = GetEntry a t)"
proof -
  have "t_filePath t \<noteq> ''''" using assms(3,5) by simp
  with assms(7) show ?thesis
  proof (cases rule: Flush_ops)
    case none
    then show ?thesis by simp
  next
    case (aborted tmp part removed)
    then show ?thesis by simp
  next
    case (renamed tmp copies data)
    let ?sf = "\<lparr>sf_UpdatedAt = time_now E n, sf_Servers = map (\<lambda>(a, e). (a, Some e)) copies\<rparr>"
    note copies = copied_entries [OF assms(4) renamed(2)]
    have "ascii_entries (sf_Servers ?sf)"
      using copies(3) assms(6) by (fastforce simp: ascii_entries_def list_all_iff)
    moreover have "distinct (map fst (sf_Servers ?sf))"
      using copies(1) by (simp add: comp_def case_prod_unfold)
    ultimately obtain sf' where sf': "Unmarshal J data = Inr sf'" "distinct (map fst (sf_Servers sf'))"
      "map_of (sf_Servers sf') = map_of (t_entries t)"
      using assms(1) renamed(3) copies(2) unfolding json_ok_def by (metis statusFile.select_convs(2))
    have tmp: "tmp \<noteq> path" using renamed(1) assms(2,5) by (auto simp: temp_ok_def)
    let ?t0 = "NewServerStatusTracker path logs every"
    have t0: "t_filePath ?t0 = path" "t_entries ?t0 = []" by (simp_all add: NewServerStatusTracker_def)
    have "fs_run fs ops path = Some data" using renamed(4) tmp assms(5) by simp
    then obtain t' where "Load D J ?t0 (fs_run fs ops) m = (None, t', Suc m)"
      "map_of (t_entries t') = map_of (t_entries t)"
      using Load_entries [of ?t0 D m "fs_run fs ops" data J sf'] assms(3,8) sf' t0 by auto
    then show ?thesis by (auto simp: GetEntry_def)
  qed
qed

text \<open>C22: A status file whose JSON has \<open>null\<close> for a server is loaded without an error, and the
  tracker then panics on the next event for that server, on looking it up and on saving.\<close>

theorem Load_null_entry_panics:
  assumes "t_filePath t \<noteq> ''''" and "read_error D n = None" and "fs (t_filePath t) = Some data"
    and "Unmarshal J data = Inr sf" and "distinct (map fst (sf_Servers sf))"
    and "map_of (sf_Servers sf) a = Some None"
  shows "\<exists>t'. Load D J t fs n = (None, t', Suc n) \<and>
    fst (RecordSuccess E a t' m) = Inl NilDereference \<and>
    fst (RecordFail E a err t' m) = Inl NilDereference \<and> GetEntry a t' = Inl NilDereference"
proof -
  obtain t' where "Load D J t fs n = (None, t', Suc n)"
    and "map_of (t_entries t') = map_of (t_entries t) ++ map_of (sf_Servers sf)"
    using Load_entries [of t D n fs data J sf, OF assms(1-5)] by metis
  moreover from this(2) assms(6) have "map_of (t_entries t') a = Some None" by simp
  ultimately show ?thesis
    by (simp add: RecordSuccess_def RecordFail_def GetEntry_def getOrCreateEntry_def)
qed

definition sample_tracker :: ServerStatusTracker where
  "sample_tracker =
     (NewServerStatusTracker ''s.json'' False 0)\<lparr>t_entries := [(''a:22'', Some (fresh_entry ''a:22''))]\<rparr>"

definition sample_file :: statusFile where
  "sample_file = \<lparr>sf_UpdatedAt = 1700000000 * second, sf_Servers = t_entries sample_tracker\<rparr>"

lemma sample_flush:
  "Flush (sample_env []) sample_disk (sample_json sample_file) sample_tracker 0 =
     (Inr None, [CreateFile ''s.json.tmp'', WriteFile ''s.json.tmp'' ''data'',
        RenameFile ''s.json.tmp'' ''s.json''], 5)"
  by code_simp

lemma sample_tracker_ok:
  "tracker_wf sample_tracker" "t_filePath sample_tracker = ''s.json''"
  "ascii_entries (t_entries sample_tracker)"
  by (simp add: sample_tracker_def tracker_wf_def) code_simp+

theorem Flush_Load_roundtrip_witness:
  "\<exists>t'. Load sample_disk (sample_json sample_file) (NewServerStatusTracker ''s.json'' False 0)
      (fs_run (\<lambda>_. None) [CreateFile ''s.json.tmp'', WriteFile ''s.json.tmp'' ''data'',
        RenameFile ''s.json.tmp'' ''s.json'']) 9 = (None, t', 10) \<and>
    GetEntry ''a:22'' t' = GetEntry ''a:22'' sample_tracker"
proof -
  have "temp_ok sample_disk (\<lambda>_. None) ''s.json''" by (simp add: temp_ok_def sample_disk_def)
  moreover have "read_error sample_disk 9 = None" by (simp add: sample_disk_def)
  ultimately show ?thesis
    using Flush_Load_roundtrip [OF sample_json_ok _ _ sample_tracker_ok sample_flush, of "\<lambda>_. None" 9 False 0]
    by auto
qed

theorem Load_null_entry_panics_witness:
  "\<exists>t'. fst (RecordFail (sample_env []) ''a:22'' None t' 0) = Inl NilDereference \<and>
    Load sample_disk (sample_json \<lparr>sf_UpdatedAt = 0, sf_Servers = [(''a:22'', None)]\<rparr>) sample_tracker
      [''s.json'' \<mapsto> ''data''] 0 = (None, t', 1)"
  using Load_null_entry_panics [of sample_tracker sample_disk 0 "[''s.json'' \<mapsto> ''data'']" "''data''"
      "sample_json \<lparr>sf_UpdatedAt = 0, sf_Servers = [(''a:22'', None)]\<rparr>"
      "\<lparr>sf_UpdatedAt = 0, sf_Servers = [(''a:22'', None)]\<rparr>" "''a:22''" "sample_env []" 0 None]
  by (auto simp: sample_disk_def sample_json_def sample_tracker_ok)

end
