(* ===== verification/Dialling.thy ===== *)
theory Dialling
  imports PoolSystem StatusFile
begin

text \<open>
  Dialling a target through the pool (\<open>internal/proxy/dial.go\<close>), with the tracker as the state
  that the pool's error callback updates (\<open>internal/app/connect.go\<close>).
\<close>

section \<open>The tracker in the world\<close>

text \<open>
  \<open>None\<close> is a nil tracker. \<open>Some (Inl p)\<close> records that the process has panicked; what the model
  does after that corresponds to no execution.
\<close>

type_synonym tracker_cell = "(go_panic + ServerStatusTracker) option"

definition on_cell ::
    "(ServerStatusTracker \<Rightarrow> tick \<Rightarrow> (go_panic + ServerStatusTracker) \<times> tick) \<Rightarrow> tick \<Rightarrow> tracker_cell \<Rightarrow>
     tick \<times> tracker_cell" where
  "on_cell f n c =
     (case c of
        Some (Inr t) \<Rightarrow> (case f t n of (r, n1) \<Rightarrow> (n1, Some r))
      | _ \<Rightarrow> (n, c))"

definition on_tracker ::
    "(ServerStatusTracker \<Rightarrow> tick \<Rightarrow> (go_panic + ServerStatusTracker) \<times> tick) \<Rightarrow>
     tracker_cell world \<Rightarrow> tracker_cell world" where
  "on_tracker f w = (case on_cell f (w_tick w) (w_cb w) of (n, c) \<Rightarrow> w\<lparr>w_tick := n, w_cb := c\<rparr>)"

text \<open>The function that \<open>connectServers\<close> installs as \<open>OnConnectionError\<close>.\<close>

definition connectionErrorCallback :: "env \<Rightarrow> tracker_cell callback" where
  "connectionErrorCallback E addr err n c = on_cell (RecordFail E addr (Some err)) n c"

section \<open>DialTargetWithRetries\<close>

type_synonym dialled = "(go_error + (nat \<times> client_ref)) \<times> tracker_cell RoundRobin \<times> tracker_cell world"

text \<open>The loop; \<open>left\<close> counts the rounds that are left.\<close>

fun dial_loop ::
    "env \<Rightarrow> string \<Rightarrow> int \<Rightarrow> duration \<Rightarrow> nat \<Rightarrow> string set \<Rightarrow> go_error option \<Rightarrow>
     tracker_cell RoundRobin \<Rightarrow> tracker_cell world \<Rightarrow> dialled" where
  "dial_loop E targetAddr failThreshold failTTL 0 excl lastErr rr w =
     (Inl (case lastErr of None \<Rightarrow> err_new ''no upstream attempts made'' | Some e \<Rightarrow> e), rr, w)"
| "dial_loop E targetAddr failThreshold failTTL (Suc left) excl lastErr rr w =
     (case GetForTarget E targetAddr (Some excl) rr w of
        (Inl err, rr1, w1) \<Rightarrow>
          (Inl (case lastErr of
                  Some le \<Rightarrow> Errorf (Error err @ ''; last dial error: '' @ Error le) (Some err)
                | None \<Rightarrow> err), rr1, w1)
      | (Inr client, rr1, w1) \<Rightarrow>
          (let upstreamAddr = addr_of w1 client;
               excl1 = insert upstreamAddr excl
           in case Client (w_store w1 client) of
                None \<Rightarrow>
                  (case ReportTargetFailure E (Some client) targetAddr failThreshold failTTL
                          (Some (err_new ''ssh client is nil'')) rr1 w1 of
                     (rr2, w2) \<Rightarrow>
                       dial_loop E targetAddr failThreshold failTTL left excl1
                         (Some (err_new (upstreamAddr @ '': ssh client is nil''))) rr2 w2)
              | Some sshConn \<Rightarrow>
                  (let w2 = w1\<lparr>w_tick := Suc (w_tick w1)\<rparr>
                   in case conn_dial E (w_tick w1) sshConn ''tcp'' targetAddr of
                        Inr targetConn \<Rightarrow>
                          (Inr (targetConn, client), rr1, on_tracker (RecordSuccess E upstreamAddr) w2)
                      | Inl dialErr \<Rightarrow>
                          (case ReportTargetFailure E (Some client) targetAddr failThreshold failTTL
                                  (Some dialErr) rr1
                                  (on_tracker (RecordFail E upstreamAddr (Some dialErr)) w2) of
                             (rr3, w3) \<Rightarrow>
                               dial_loop E targetAddr failThreshold failTTL left excl1
                                 (Some (Errorf (upstreamAddr @ '' failed target '' @ targetAddr @ '': '' @
                                                Error dialErr) (Some dialErr))) rr3 w3))))"

definition DialTargetWithRetries ::
    "env \<Rightarrow> string \<Rightarrow> int \<Rightarrow> int \<Rightarrow> duration \<Rightarrow> tracker_cell RoundRobin \<Rightarrow> tracker_cell world \<Rightarrow> dialled" where
  "DialTargetWithRetries E targetAddr maxUpstreams failThreshold failTTL rr w =
     (let rounds = (if maxUpstreams \<le> 0 then (if Len rr \<le> 0 then 1 else Len rr) else maxUpstreams)
      in dial_loop E targetAddr failThreshold failTTL (nat rounds) {} None rr w)"

section \<open>One round\<close>

lemma on_tracker_simps [simp]:
  "w_store (on_tracker f w) = w_store w" "up (on_tracker f w) r = up w r"
  "addr_of (on_tracker f w) r = addr_of w r" "servers_wf rr (on_tracker f w) = servers_wf rr w"
  "evolves S v (on_tracker f w) = evolves S v w"
  by (simp_all add: on_tracker_def up_def addr_of_def servers_wf_def evolves_def split: prod.split)

lemma tick_simps [simp]:
  "addr_of (w\<lparr>w_tick := n\<rparr>) r = addr_of w r" "evolves S v (w\<lparr>w_tick := n\<rparr>) = evolves S v w"
  by (simp_all add: addr_of_def evolves_def)

lemma pool_wf_store: "w_store w' = w_store w \<Longrightarrow> pool_wf rr w' = pool_wf rr w"
  by (simp add: pool_wf_def servers_wf_def)

text \<open>
  What a round in which an upstream was selected but did not connect the target leaves behind:
  the pool with the upstream's failure reported.
\<close>

definition round_frame ::
    "tracker_cell RoundRobin \<Rightarrow> tracker_cell world \<Rightarrow> tracker_cell RoundRobin \<Rightarrow> tracker_cell world \<Rightarrow> bool" where
  "round_frame rr w rr' w' \<longleftrightarrow>
     pool_wf rr' w' \<and> rr_servers rr' = rr_servers rr \<and> rr_strategy rr' = rr_strategy rr \<and>
     rr_OnConnectionError rr' = rr_OnConnectionError rr \<and> evolves (set (rr_servers rr)) w w'"

lemma round_frame_trans: "round_frame rr w rr1 w1 \<Longrightarrow> round_frame rr1 w1 rr2 w2 \<Longrightarrow> round_frame rr w rr2 w2"
  by (auto simp: round_frame_def intro: evolves_trans)

lemma round_frame_addr: "round_frame rr w rr' w' \<Longrightarrow> addr_of w' = addr_of w"
  unfolding round_frame_def by (metis evolves_addrs)

lemma GetForTarget_round:
  assumes "ssh_library_ok E" and "pool_wf rr w" and "GetForTarget E t ex rr w = (res, rr1, w1)"
  shows "round_frame rr w rr1 w1"
  using GetForTarget_frame [OF assms] by (simp add: round_frame_def scan_frame_def)

lemma Report_round:
  assumes "round_frame rr w rr1 w1" and "w_store w2 = w_store w1"
    and "ReportTargetFailure E c t threshold ttl err rr1 w2 = (rr2, w3)"
  shows "round_frame rr w rr2 w3"
proof -
  note f = ReportTargetFailure_frame [OF assms(3)]
  have "rr_servers rr2 = rr_servers rr1 \<and> rr_strategy rr2 = rr_strategy rr1 \<and>
      rr_OnConnectionError rr2 = rr_OnConnectionError rr1" using f(1) by (cases rr2) simp
  moreover have "pool_wf rr2 w3 = pool_wf rr1 w1"
    using ReportTargetFailure_wf [OF assms(3)] pool_wf_store [OF assms(2)] by simp
  moreover have "evolves S w w3 = evolves S w w1" for S
    using f(2) assms(2) by (simp add: evolves_def)
  ultimately show ?thesis using assms(1) by (simp add: round_frame_def)
qed

section \<open>What the callback keeps\<close>

text \<open>A property of the callback's state that the callback keeps is kept by every selection.\<close>

definition cb_keeps :: "'t RoundRobin \<Rightarrow> ('t \<Rightarrow> bool) \<Rightarrow> bool" where
  "cb_keeps rr P \<longleftrightarrow>
     (case rr_OnConnectionError rr of
        None \<Rightarrow> True | Some f \<Rightarrow> \<forall>a e n t. P t \<longrightarrow> P (snd (f a e n t)))"

lemma notify_keeps: "cb_keeps rr P \<Longrightarrow> P (w_cb w) \<Longrightarrow> P (w_cb (notifyConnectionError rr a e w))"
  by (auto simp: cb_keeps_def notifyConnectionError_def split: option.splits prod.splits)
    (metis snd_conv)

lemma at_client_cb: "at_client r f w = (x, w') \<Longrightarrow> w_cb w' = w_cb w"
  by (auto elim: at_clientE)

lemma client_calls_cb:
  "IsConnected_at r w = (b, w1) \<Longrightarrow> w_cb w1 = w_cb w"
  "EnsureConnected_at E r w = (x, w1) \<Longrightarrow> w_cb w1 = w_cb w"
  by (auto simp: IsConnected_at_def EnsureConnected_at_def dest: at_client_cb)

lemma try_client_keeps:
  assumes "cb_keeps rr P" and "P (w_cb w)" and "try_client E t ex now allow r rr w = (b, rr', w')"
  shows "cb_keeps rr' P" and "P (w_cb w')"
proof -
  have k: "cb_keeps rr1 P" if "isTargetBlockedLocked c t now rr = (x, rr1)" for c x rr1
    using isTargetBlockedLocked_frame(7) [OF that] assms(1) by (simp add: cb_keeps_def)
  obtain bl rr1 where bl: "isTargetBlockedLocked (Some (w_store w r)) t now rr = (bl, rr1)"
    by (cases "isTargetBlockedLocked (Some (w_store w r)) t now rr")
  obtain ic w1 where ic: "IsConnected_at r w = (ic, w1)" by (cases "IsConnected_at r w")
  obtain ec w2 where ec: "EnsureConnected_at E r w1 = (ec, w2)" by (cases "EnsureConnected_at E r w1")
  have cb: "w_cb w1 = w_cb w" "w_cb w2 = w_cb w"
    using client_calls_cb(1) [OF ic] client_calls_cb(2) [OF ec] by simp_all
  have n: "P (w_cb (notifyConnectionError rr1 a e w2))" for a e
    by (rule notify_keeps) (use k [OF bl] assms(2) cb in simp_all)
  show "cb_keeps rr' P" "P (w_cb w')"
    using assms k [OF bl] cb n bl ic ec
    by (auto simp: try_client_def split: if_splits bool.splits option.splits)
qed

lemma scan_keeps:
  "cb_keeps rr P \<Longrightarrow> P (w_cb w) \<Longrightarrow> scan E t ex now allow rs rr w = (p, rr', w') \<Longrightarrow>
   cb_keeps rr' P \<and> P (w_cb w')"
proof (induction rs arbitrary: rr w p)
  case (Cons r rs)
  obtain b rr1 w1 where t: "try_client E t ex now allow r rr w = (b, rr1, w1)" by (metis prod_cases3)
  note k = try_client_keeps [OF Cons.prems(1,2) t]
  show ?case
  proof (cases b)
    case True
    then show ?thesis using Cons.prems(3) t k by simp
  next
    case False
    then obtain p1 where "scan E t ex now allow rs rr1 w1 = (p1, rr', w')"
      using Cons.prems(3) t by (auto split: prod.splits)
    then show ?thesis using Cons.IH [OF k] by blast
  qed
qed simp

lemma cb_keeps_cursor [simp]:
  "cb_keeps (rr\<lparr>rr_index := i\<rparr>) P = cb_keeps rr P"
  "cb_keeps (rr\<lparr>rr_hasActive := h, rr_activeIdx := a\<rparr>) P = cb_keeps rr P"
  "cb_keeps (rr\<lparr>rr_activeIdx := a, rr_hasActive := h\<rparr>) P = cb_keeps rr P"
  by (simp_all add: cb_keeps_def)

lemma fo_scan_keeps:
  assumes "cb_keeps rr P" and "P (w_cb w)" and "fo_scan E t ex now si cks rr w = (res, rr', w')"
  shows "cb_keeps rr' P \<and> P (w_cb w')"
  using assms scan_keeps [OF assms(1,2)]
  by (auto simp: fo_scan_eq Let_def split: prod.splits option.splits)

lemma scanNext_keeps:
  assumes "cb_keeps rr P" and "P (w_cb w)" and "scanNext E t ex now rr w = (res, rr', w')"
  shows "cb_keeps rr' P \<and> P (w_cb w')"
proof -
  have "cb_keeps (rr\<lparr>rr_index := rr_index rr + 1\<rparr>) P" using assms(1) by simp
  from fo_scan_keeps [OF this assms(2)] fo_scan_keeps [OF assms(1,2)] assms(3) show ?thesis
    by (auto simp: scanNext_def Let_def split: if_splits)
qed

lemma lb_scan_keeps:
  assumes "cb_keeps rr P" and "P (w_cb w)" and "lb_scan E t ex now si cc cks rr w = (res, rr', w')"
  shows "cb_keeps rr' P \<and> P (w_cb w')"
  using assms scan_keeps [OF assms(1,2)]
  by (auto simp: lb_scan_eq split: prod.splits option.splits)

lemma count_connected_cb: "count_connected rs k w = (c, w1) \<Longrightarrow> w_cb w1 = w_cb w"
  by (induction rs arbitrary: k w) (auto split: prod.splits dest!: client_calls_cb(1))

lemma GetForTarget_keeps:
  assumes "cb_keeps rr P" and "P (w_cb w)" and "GetForTarget E t ex rr w = (res, rr', w')"
  shows "cb_keeps rr' P \<and> P (w_cb w')"
proof -
  have fo: "cb_keeps rr' P \<and> P (w_cb w')" if "getFailoverLocked E t ex rr w = (res, rr', w')"
  proof -
    have "P (w_cb (w\<lparr>w_tick := Suc (w_tick w)\<rparr>))" using assms(2) by simp
    note start = scanNext_keeps [OF assms(1) this] try_client_keeps [OF assms(1) this]
    let ?r = "rr_servers rr ! nat (rr_activeIdx rr)"
    obtain ok rr1 w1 where tr: "try_client E t ex (time_now E (w_tick w)) True ?r rr
        (w\<lparr>w_tick := Suc (w_tick w)\<rparr>) = (ok, rr1, w1)" by (metis prod_cases3)
    show ?thesis
      using that start(1) start(2,3) [OF tr] scanNext_keeps [OF start(2) [OF tr] start(3) [OF tr]]
      by (auto simp: getFailoverLocked_eq now_at_def Let_def tr split: if_splits bool.splits)
  qed
  have lb: "cb_keeps rr' P \<and> P (w_cb w')" if "getLoadBalanceLocked E t ex rr w = (res, rr', w')"
  proof -
    obtain cc w1 where c: "connectedCountLocked rr w = (cc, w1)" by (cases "connectedCountLocked rr w")
    then have "P (w_cb (snd (now_at E w1)))"
      using assms(2) by (auto simp: connectedCountLocked_def dest: count_connected_cb)
    moreover obtain now w2 where n: "now_at E w1 = (now, w2)" by (cases "now_at E w1")
    ultimately have P: "P (w_cb w2)" by simp
    have cb: "cb_keeps (rr\<lparr>rr_index := rr_index rr + 1\<rparr>) P" using assms(1) by simp
    show ?thesis
      by (rule lb_scan_keeps [OF cb P]) (use that c n in \<open>simp add: getLoadBalanceLocked_def Let_def\<close>)
  qed
  show ?thesis using assms fo lb by (auto simp: GetForTarget_def split: if_splits)
qed

section \<open>The loop\<close>

text \<open>
  On a well-formed pool the selected client is connected, so the branch for a nil client is
  never taken.
\<close>

definition dial_failed ::
    "env \<Rightarrow> string \<Rightarrow> int \<Rightarrow> duration \<Rightarrow> client_ref \<Rightarrow> go_error \<Rightarrow> tracker_cell RoundRobin \<Rightarrow>
     tracker_cell world \<Rightarrow> tracker_cell RoundRobin \<times> tracker_cell world" where
  "dial_failed E target threshold ttl r err rr w =
     ReportTargetFailure E (Some r) target threshold ttl (Some err) rr
       (on_tracker (RecordFail E (addr_of w r) (Some err)) (w\<lparr>w_tick := Suc (w_tick w)\<rparr>))"

definition dial_error :: "string \<Rightarrow> string \<Rightarrow> go_error \<Rightarrow> go_error" where
  "dial_error addr target err = Errorf (addr @ '' failed target '' @ target @ '': '' @ Error err) (Some err)"

lemma dial_loop_selected:
  assumes "ssh_library_ok E" and "pool_wf rr w"
    and "GetForTarget E t (Some ex) rr w = (Inr r, rr1, w1)"
  obtains h where "c_client (w_store w1 r) = Some h"
    and "dial_loop E t k ttl (Suc n) ex prev rr w =
      (case conn_dial E (w_tick w1) h ''tcp'' t of
         Inr c \<Rightarrow> (Inr (c, r), rr1,
           on_tracker (RecordSuccess E (addr_of w1 r)) (w1\<lparr>w_tick := Suc (w_tick w1)\<rparr>))
       | Inl err \<Rightarrow>
           (case dial_failed E t k ttl r err rr1 w1 of
              (rr2, w2) \<Rightarrow> dial_loop E t k ttl n (insert (addr_of w1 r) ex)
                (Some (dial_error (addr_of w1 r) t err)) rr2 w2))"
proof -
  have c: "r \<in> set (rr_servers rr) \<and> up w1 r \<and> pool_wf rr1 w1 \<and> rr_servers rr1 = rr_servers rr"
    using GetForTarget_cases [OF assms] by (auto simp: select_taken_def scan_frame_def)
  then obtain h where h: "c_client (w_store w1 r) = Some h"
    by (auto simp: up_def connected_def split: option.splits)
  then show ?thesis
    using assms(3) by (intro that [OF h])
      (simp add: Client_def Let_def dial_failed_def dial_error_def split: sum.split prod.split)
qed

text \<open>What holds of each round, and what that gives for the whole loop.\<close>

lemma dial_failed_round:
  assumes "ssh_library_ok E" and "pool_wf rr w" and "GetForTarget E t ex rr w = (Inr r, rr1, w1)"
    and "dial_failed E t k ttl r err rr1 w1 = (rr2, w2)"
  shows "round_frame rr w rr2 w2"
  by (rule Report_round [OF GetForTarget_round [OF assms(1-3)] _ assms(4) [unfolded dial_failed_def]]) simp

lemma dial_loop_result:
  assumes "ssh_library_ok E"
  shows "pool_wf rr w \<Longrightarrow> dial_loop E t k ttl n ex prev rr w = (res, rr', w') \<Longrightarrow>
    round_frame rr w rr' w' \<and>
    (case res of
       Inl e \<Rightarrow> True
     | Inr (c, r) \<Rightarrow> r \<in> set (rr_servers rr) \<and> addr_of w r \<notin> ex \<and> up w' r \<and>
         (\<exists>m h. c_client (w_store w' r) = Some h \<and> conn_dial E m h ''tcp'' t = Inr c))"
proof (induction n arbitrary: ex prev rr w)
  case 0
  then show ?case by (auto simp: round_frame_def)
next
  case (Suc n)
  obtain sel rr1 w1 where g: "GetForTarget E t (Some ex) rr w = (sel, rr1, w1)" by (metis prod_cases3)
  note fr = GetForTarget_round [OF assms Suc.prems(1) g]
  show ?case
  proof (cases sel)
    case (Inl e)
    then show ?thesis using Suc.prems(2) g fr by auto
  next
    case (Inr r)
    note g = g [unfolded Inr]
    from GetForTarget_cases [OF assms Suc.prems(1) g]
    have r: "r \<in> set (rr_servers rr)" "addr_of w r \<notin> ex" "up w1 r"
      by (auto simp: select_taken_def taken_def scan_frame_def excluded_def)
    have addr: "addr_of w1 = addr_of w" using round_frame_addr [OF fr] .
    obtain h where h: "c_client (w_store w1 r) = Some h"
      and step: "dial_loop E t k ttl (Suc n) ex prev rr w =
        (case conn_dial E (w_tick w1) h ''tcp'' t of
           Inr c \<Rightarrow> (Inr (c, r), rr1,
             on_tracker (RecordSuccess E (addr_of w1 r)) (w1\<lparr>w_tick := Suc (w_tick w1)\<rparr>))
         | Inl err \<Rightarrow>
             (case dial_failed E t k ttl r err rr1 w1 of
                (rr2, w2) \<Rightarrow> dial_loop E t k ttl n (insert (addr_of w1 r) ex)
                  (Some (dial_error (addr_of w1 r) t err)) rr2 w2))"
      by (rule dial_loop_selected [OF assms Suc.prems(1) g])
    show ?thesis
    proof (cases "conn_dial E (w_tick w1) h ''tcp'' t")
      case (Inr c)
      then have "res = Inr (c, r)" "rr' = rr1"
        "w' = on_tracker (RecordSuccess E (addr_of w1 r)) (w1\<lparr>w_tick := Suc (w_tick w1)\<rparr>)"
        using Suc.prems(2) step by simp_all
      moreover from this(3) have s: "w_store w' = w_store w1" by simp
      moreover have "round_frame rr w rr1 w'"
        using fr s by (simp add: round_frame_def evolves_def pool_wf_store [OF s])
      moreover have "up w' r" using r(3) s by (simp add: up_def)
      moreover have "\<exists>m h. c_client (w_store w' r) = Some h \<and> conn_dial E m h ''tcp'' t = Inr c"
        using h Inr s by (intro exI conjI) simp_all
      ultimately show ?thesis using r by simp
    next
      case (Inl err)
      obtain rr2 w2 where f: "dial_failed E t k ttl r err rr1 w1 = (rr2, w2)"
        by (cases "dial_failed E t k ttl r err rr1 w1")
      note fr2 = dial_failed_round [OF assms Suc.prems(1) g f]
      then have "pool_wf rr2 w2" by (simp add: round_frame_def)
      moreover have "dial_loop E t k ttl n (insert (addr_of w1 r) ex)
          (Some (dial_error (addr_of w1 r) t err)) rr2 w2 = (res, rr', w')"
        using Suc.prems(2) step Inl f by simp
      ultimately have IH: "round_frame rr2 w2 rr' w' \<and> (case res of Inl e \<Rightarrow> True
        | Inr (c, r') \<Rightarrow> r' \<in> set (rr_servers rr2) \<and> addr_of w2 r' \<notin> insert (addr_of w1 r) ex \<and> up w' r' \<and>
          (\<exists>m h. c_client (w_store w' r') = Some h \<and> conn_dial E m h ''tcp'' t = Inr c))"
        by (rule Suc.IH)
      have "rr_servers rr2 = rr_servers rr" "addr_of w2 = addr_of w"
        using fr2 round_frame_addr [OF fr2] by (simp_all add: round_frame_def)
      with IH show ?thesis using round_frame_trans [OF fr2] by (auto split: sum.splits)
    qed
  qed
qed

text \<open>The tracker's cell: nil, or a well-formed tracker of a process that has not panicked.\<close>

definition cell_wf :: "tracker_cell \<Rightarrow> bool" where
  "cell_wf c \<longleftrightarrow> (case c of None \<Rightarrow> True | Some (Inl _) \<Rightarrow> False | Some (Inr t) \<Rightarrow> tracker_wf t)"

lemma record_cell_wf:
  assumes "cell_wf c"
  shows "cell_wf (snd (on_cell (RecordFail E a err) n c))" and "cell_wf (snd (on_cell (RecordSuccess E a) n c))"
proof -
  show "cell_wf (snd (on_cell (RecordFail E a err) n c))"
  proof (cases "\<exists>t. c = Some (Inr t)")
    case True
    then obtain t where t: "c = Some (Inr t)" "tracker_wf t" using assms by (auto simp: cell_wf_def)
    obtain t1 where "RecordFail E a err t n = (Inr t1, Suc n)" "tracker_wf t1"
      by (rule RecordFail_wf [OF t(2), of E a err n])
    then show ?thesis using t(1) by (simp add: on_cell_def cell_wf_def)
  qed (use assms in \<open>auto simp: on_cell_def cell_wf_def split: option.splits sum.splits\<close>)
  show "cell_wf (snd (on_cell (RecordSuccess E a) n c))"
  proof (cases "\<exists>t. c = Some (Inr t)")
    case True
    then obtain t where t: "c = Some (Inr t)" "tracker_wf t" using assms by (auto simp: cell_wf_def)
    obtain t1 where "RecordSuccess E a t n = (Inr t1, Suc n)" "tracker_wf t1"
      by (rule RecordSuccess_wf [OF t(2), of E a n])
    then show ?thesis using t(1) by (simp add: on_cell_def cell_wf_def)
  qed (use assms in \<open>auto simp: on_cell_def cell_wf_def split: option.splits sum.splits\<close>)
qed

lemma on_tracker_cb: "w_cb (on_tracker f w) = snd (on_cell f (w_tick w) (w_cb w))"
  by (simp add: on_tracker_def split: prod.split)

lemma callback_keeps_cell:
  "rr_OnConnectionError rr \<in> {None, Some (connectionErrorCallback E)} \<Longrightarrow> cb_keeps rr cell_wf"
  by (auto simp: cb_keeps_def connectionErrorCallback_def record_cell_wf)

lemma record_success_entry:
  assumes "cell_wf c" and "snd (on_cell (RecordSuccess E a) n c) = Some (Inr t')"
  shows "\<exists>e. entry_of t' a = Some e \<and> e_Status e = ''success'' \<and> e_ConsecutiveFail e = 0 \<and> e_LastError e = ''''"
proof -
  obtain t where t: "c = Some (Inr t)" "tracker_wf t"
    using assms by (auto simp: on_cell_def cell_wf_def split: option.splits sum.splits)
  obtain t1 where "RecordSuccess E a t n = (Inr t1, Suc n)"
    "\<And>b. entry_of t1 b = (if b = a then Some (after_success (time_now E n) (current_entry t a)) else entry_of t b)"
    using RecordSuccess_wf [OF t(2), of E a n] by metis
  then show ?thesis using assms(2) t(1) by (simp add: on_cell_def after_success_def)
qed

lemma dial_failed_tracker:
  assumes "cell_wf (w_cb w)" and "cb_keeps rr P" and "dial_failed E t k ttl r err rr w = (rr2, w2)"
  shows "cell_wf (w_cb w2) \<and> cb_keeps rr2 P"
proof -
  note f = ReportTargetFailure_frame [OF assms(3) [unfolded dial_failed_def]]
  have "w_cb w2 = snd (on_cell (RecordFail E (addr_of w r) (Some err)) (Suc (w_tick w)) (w_cb w))"
    using f(3) by (simp add: on_tracker_cb)
  moreover have "rr_OnConnectionError rr2 = rr_OnConnectionError rr" using f(1) by (cases rr2) simp
  ultimately show ?thesis using record_cell_wf(1) [OF assms(1)] assms(2) by (simp add: cb_keeps_def)
qed

lemma dial_loop_tracker:
  assumes "ssh_library_ok E"
  shows "pool_wf rr w \<Longrightarrow> cb_keeps rr cell_wf \<Longrightarrow> cell_wf (w_cb w) \<Longrightarrow>
    dial_loop E t k ttl n ex prev rr w = (res, rr', w') \<Longrightarrow>
    cell_wf (w_cb w') \<and>
    (\<forall>c r t'. res = Inr (c, r) \<longrightarrow> w_cb w' = Some (Inr t') \<longrightarrow>
       (\<exists>e. entry_of t' (addr_of w r) = Some e \<and> e_Status e = ''success'' \<and> e_ConsecutiveFail e = 0 \<and>
            e_LastError e = ''''))"
proof (induction n arbitrary: ex prev rr w)
  case (Suc n)
  obtain sel rr1 w1 where g: "GetForTarget E t (Some ex) rr w = (sel, rr1, w1)" by (metis prod_cases3)
  note keep = GetForTarget_keeps [OF Suc.prems(2,3) g]
  show ?case
  proof (cases sel)
    case (Inl e)
    then show ?thesis using Suc.prems(4) g keep by auto
  next
    case (Inr r)
    note g = g [unfolded Inr]
    have addr: "addr_of w1 = addr_of w"
      using round_frame_addr [OF GetForTarget_round [OF assms Suc.prems(1) g]] .
    obtain h where step: "dial_loop E t k ttl (Suc n) ex prev rr w =
        (case conn_dial E (w_tick w1) h ''tcp'' t of
           Inr c \<Rightarrow> (Inr (c, r), rr1,
             on_tracker (RecordSuccess E (addr_of w1 r)) (w1\<lparr>w_tick := Suc (w_tick w1)\<rparr>))
         | Inl err \<Rightarrow>
             (case dial_failed E t k ttl r err rr1 w1 of
                (rr2, w2) \<Rightarrow> dial_loop E t k ttl n (insert (addr_of w1 r) ex)
                  (Some (dial_error (addr_of w1 r) t err)) rr2 w2))"
      by (rule dial_loop_selected [OF assms Suc.prems(1) g])
    show ?thesis
    proof (cases "conn_dial E (w_tick w1) h ''tcp'' t")
      case (Inr c)
      then have "res = Inr (c, r)" and "w_cb w' =
          snd (on_cell (RecordSuccess E (addr_of w r)) (Suc (w_tick w1)) (w_cb w1))"
        using Suc.prems(4) step addr by (auto simp: on_tracker_cb)
      then show ?thesis
        using keep record_cell_wf(2) [of "w_cb w1"] record_success_entry [of "w_cb w1"] by auto
    next
      case (Inl err)
      obtain rr2 w2 where f: "dial_failed E t k ttl r err rr1 w1 = (rr2, w2)"
        by (cases "dial_failed E t k ttl r err rr1 w1")
      have wf2: "pool_wf rr2 w2" and a2: "addr_of w2 = addr_of w"
        using dial_failed_round [OF assms Suc.prems(1) g f] round_frame_addr
        by (auto simp: round_frame_def)
      have k2: "cb_keeps rr2 cell_wf" "cell_wf (w_cb w2)"
        using dial_failed_tracker [OF _ _ f] keep by blast+
      have "dial_loop E t k ttl n (insert (addr_of w1 r) ex)
          (Some (dial_error (addr_of w1 r) t err)) rr2 w2 = (res, rr', w')"
        using Suc.prems(4) step Inl f by simp
      from Suc.IH [OF wf2 k2 this] show ?thesis unfolding a2 .
    qed
  qed
qed auto

text \<open>
  The number of rounds. Each failed round excludes one more address of the pool, so the loop
  meets its end before any bound above the number of distinct addresses.
\<close>

lemma remaining_round:
  assumes "round_frame rr w rr' w'"
  shows "pool.remaining (rr', w') S = pool.remaining (rr, w) S"
  using round_frame_addr [OF assms] assms by (simp add: pool.remaining_def pool_members_def round_frame_def)

lemma dial_round_remaining:
  assumes "ssh_library_ok E" and "pool_wf rr w" and "GetForTarget E t (Some ex) rr w = (Inr r, rr1, w1)"
    and "dial_failed E t k ttl r err rr1 w1 = (rr2, w2)"
  shows "pool.remaining (rr2, w2) (insert (addr_of w1 r) ex) < pool.remaining (rr, w) ex"
proof -
  have inv: "pool_inv_of E (rr, w)" using assms(1,2) by (simp add: pool_inv_of_def)
  have "select_on E t (Some ex) (rr, w) = (Inr r, (rr1, w1))" using assms(3) by (simp add: select_on_def)
  from pool.select_remaining [OF inv this]
  have "pool.remaining (rr1, w1) (insert (addr_of w r) ex) < pool.remaining (rr, w) ex" by simp
  moreover have "pool.remaining (rr2, w2) S = pool.remaining (rr1, w1) S" for S
    using remaining_round [OF dial_failed_round [OF assms]] remaining_round [OF GetForTarget_round [OF assms(1-3)]]
    by simp
  moreover have "addr_of w1 = addr_of w"
    by (rule round_frame_addr [OF GetForTarget_round [OF assms(1-3)]])
  ultimately show ?thesis by simp
qed

lemma dial_loop_bound:
  assumes "ssh_library_ok E"
  shows "pool_wf rr w \<Longrightarrow> pool.remaining (rr, w) ex < n \<Longrightarrow> pool.remaining (rr, w) ex < m \<Longrightarrow>
    dial_loop E t k ttl n ex prev rr w = dial_loop E t k ttl m ex prev rr w"
proof (induction n arbitrary: m ex prev rr w)
  case (Suc n)
  then obtain l where m: "m = Suc l" by (cases m) auto
  obtain sel rr1 w1 where g: "GetForTarget E t (Some ex) rr w = (sel, rr1, w1)" by (metis prod_cases3)
  show ?case
  proof (cases sel)
    case (Inl e)
    then show ?thesis using g m by simp
  next
    case (Inr r)
    note g = g [unfolded Inr]
    have "dial_loop E t k ttl n (insert (addr_of w1 r) ex) p rr2 w2 =
        dial_loop E t k ttl l (insert (addr_of w1 r) ex) p rr2 w2"
      if "dial_failed E t k ttl r err rr1 w1 = (rr2, w2)" for err p rr2 w2
    proof (rule Suc.IH)
      show "pool_wf rr2 w2"
        using dial_failed_round [OF assms Suc.prems(1) g that] by (simp add: round_frame_def)
      note r = dial_round_remaining [OF assms Suc.prems(1) g that]
      show "pool.remaining (rr2, w2) (insert (addr_of w1 r) ex) < n" using r Suc.prems(2) by simp
      show "pool.remaining (rr2, w2) (insert (addr_of w1 r) ex) < l" using r Suc.prems(3) m by simp
    qed
    moreover obtain h where "c_client (w_store w1 r) = Some h"
      by (rule dial_loop_selected [OF assms Suc.prems(1) g])
    ultimately show ?thesis
      using g m by (auto simp: Client_def Let_def dial_failed_def dial_error_def
          split: sum.split prod.split)
  qed
qed simp

section \<open>The attempts\<close>

text \<open>
  The dial attempts of a run, in order, each with the upstream and its outcome: what the log
  of \<open>DialTargetWithRetries\<close> shows.
\<close>

primrec dial_attempts ::
    "env \<Rightarrow> string \<Rightarrow> int \<Rightarrow> duration \<Rightarrow> nat \<Rightarrow> string set \<Rightarrow> tracker_cell RoundRobin \<Rightarrow>
     tracker_cell world \<Rightarrow> (client_ref \<times> (go_error + nat)) list" where
  "dial_attempts E t k ttl 0 ex rr w = []"
| "dial_attempts E t k ttl (Suc n) ex rr w =
     (case GetForTarget E t (Some ex) rr w of
        (Inl err, rr1, w1) \<Rightarrow> []
      | (Inr r, rr1, w1) \<Rightarrow>
          (case conn_dial E (w_tick w1) (the (c_client (w_store w1 r))) ''tcp'' t of
             Inr c \<Rightarrow> [(r, Inr c)]
           | Inl err \<Rightarrow> (r, Inl err) #
               (case dial_failed E t k ttl r err rr1 w1 of
                  (rr2, w2) \<Rightarrow> dial_attempts E t k ttl n (insert (addr_of w1 r) ex) rr2 w2)))"

text \<open>One round of the loop and of its attempts, for inductions.\<close>

lemma dial_round_cases:
  assumes "ssh_library_ok E" and "pool_wf rr w"
  obtains (stop) e rr1 w1 e' where "GetForTarget E t (Some ex) rr w = (Inl e, rr1, w1)"
      and "dial_loop E t k ttl (Suc n) ex prev rr w = (Inl e', rr1, w1)"
      and "dial_attempts E t k ttl (Suc n) ex rr w = []"
  | (success) r rr1 w1 c where "GetForTarget E t (Some ex) rr w = (Inr r, rr1, w1)"
      and "fst (dial_loop E t k ttl (Suc n) ex prev rr w) = Inr (c, r)"
      and "dial_attempts E t k ttl (Suc n) ex rr w = [(r, Inr c)]"
      and "r \<in> set (rr_servers rr)" and "addr_of w r \<notin> ex"
  | (failure) r rr1 w1 err rr2 w2 where "GetForTarget E t (Some ex) rr w = (Inr r, rr1, w1)"
      and "dial_failed E t k ttl r err rr1 w1 = (rr2, w2)"
      and "dial_loop E t k ttl (Suc n) ex prev rr w =
        dial_loop E t k ttl n (insert (addr_of w r) ex) (Some (dial_error (addr_of w r) t err)) rr2 w2"
      and "dial_attempts E t k ttl (Suc n) ex rr w =
        (r, Inl err) # dial_attempts E t k ttl n (insert (addr_of w r) ex) rr2 w2"
      and "r \<in> set (rr_servers rr)" and "addr_of w r \<notin> ex" and "round_frame rr w rr2 w2"
      and "pool_wf rr2 w2" and "addr_of w2 = addr_of w" and "rr_servers rr2 = rr_servers rr"
proof -
  obtain sel rr1 w1 where g: "GetForTarget E t (Some ex) rr w = (sel, rr1, w1)" by (metis prod_cases3)
  show thesis
  proof (cases sel)
    case (Inl e)
    obtain e' where "dial_loop E t k ttl (Suc n) ex prev rr w = (Inl e', rr1, w1)" using g Inl by simp
    with g Inl show thesis by (intro stop [of e rr1 w1 e']) simp_all
  next
    case (Inr r)
    note g = g [unfolded Inr]
    have r: "r \<in> set (rr_servers rr)" "addr_of w r \<notin> ex"
      using GetForTarget_cases [OF assms g] by (auto simp: select_taken_def taken_def excluded_def)
    have addr: "addr_of w1 = addr_of w" by (rule round_frame_addr [OF GetForTarget_round [OF assms g]])
    obtain h where h: "c_client (w_store w1 r) = Some h"
      and step: "dial_loop E t k ttl (Suc n) ex prev rr w =
        (case conn_dial E (w_tick w1) h ''tcp'' t of
           Inr c \<Rightarrow> (Inr (c, r), rr1,
             on_tracker (RecordSuccess E (addr_of w1 r)) (w1\<lparr>w_tick := Suc (w_tick w1)\<rparr>))
         | Inl err \<Rightarrow>
             (case dial_failed E t k ttl r err rr1 w1 of
                (rr2, w2) \<Rightarrow> dial_loop E t k ttl n (insert (addr_of w1 r) ex)
                  (Some (dial_error (addr_of w1 r) t err)) rr2 w2))"
      by (rule dial_loop_selected [OF assms g])
    show thesis
    proof (cases "conn_dial E (w_tick w1) h ''tcp'' t")
      case (Inr c)
      then show thesis using g h step r by (intro success [of r rr1 w1 c]) simp_all
    next
      case (Inl err)
      obtain rr2 w2 where f: "dial_failed E t k ttl r err rr1 w1 = (rr2, w2)"
        by (cases "dial_failed E t k ttl r err rr1 w1")
      note fr = dial_failed_round [OF assms g f]
      then have "pool_wf rr2 w2" "rr_servers rr2 = rr_servers rr" by (simp_all add: round_frame_def)
      then show thesis
        using g h step r Inl f addr fr round_frame_addr [OF fr]
        by (intro failure [of r rr1 w1 err rr2 w2]) simp_all
    qed
  qed
qed

lemma dial_attempts_facts:
  assumes "ssh_library_ok E"
  shows "pool_wf rr w \<Longrightarrow> as = dial_attempts E t k ttl n ex rr w \<Longrightarrow>
    res = fst (dial_loop E t k ttl n ex prev rr w) \<Longrightarrow>
    length as \<le> n \<and> fst ` set as \<subseteq> set (rr_servers rr) \<and>
    distinct (map (addr_of w \<circ> fst) as) \<and> (\<forall>a \<in> set as. addr_of w (fst a) \<notin> ex) \<and>
    (case res of
       Inr (c, r) \<Rightarrow> as \<noteq> [] \<and> last as = (r, Inr c) \<and> (\<forall>a \<in> set (butlast as). \<exists>e. snd a = Inl e)
     | Inl e \<Rightarrow> \<forall>a \<in> set as. \<exists>e. snd a = Inl e)"
proof (induction n arbitrary: as ex prev rr w)
  case (Suc n)
  from assms Suc.prems(1) show ?case
  proof (cases rule: dial_round_cases [where t = t and ex = ex and k = k and ttl = ttl and n = n and prev = prev])
    case (stop e rr1 w1 e')
    then show ?thesis using Suc.prems(2,3) by (simp del: dial_loop.simps dial_attempts.simps)
  next
    case (success r rr1 w1 c)
    then show ?thesis using Suc.prems(2,3) by (simp del: dial_loop.simps dial_attempts.simps)
  next
    case (failure r rr1 w1 err rr2 w2)
    let ?as = "dial_attempts E t k ttl n (insert (addr_of w r) ex) rr2 w2"
    have as: "as = (r, Inl err) # ?as" using Suc.prems(2) failure(4) by metis
    have res: "res = fst (dial_loop E t k ttl n (insert (addr_of w r) ex)
        (Some (dial_error (addr_of w r) t err)) rr2 w2)"
      using Suc.prems(3) failure(3) by metis
    note IH = Suc.IH [OF failure(8) refl res, unfolded failure(9,10)]
    show ?thesis using IH failure(5,6) by (auto simp: as split: sum.splits)
  qed
qed simp

lemma ReportTargetFailure_other:
  assumes "ReportTargetFailure E (Some r) t k ttl err rr w = (rr', w')" and "a \<noteq> addr_of w r"
  shows "blocked_at rr' a t \<tau> = blocked_at rr a t \<tau>"
proof -
  have "targetFailureKey a t \<noteq> targetFailureKey (addr_of w r) t"
    using assms(2) by (simp add: targetFailureKey_def)
  then have "rr_targetFailures rr' (targetFailureKey a t) = rr_targetFailures rr (targetFailureKey a t)"
    using assms(1) by (auto simp: ReportTargetFailure_def now_at_def Let_def split: option.splits if_splits)
  then show ?thesis by (simp add: blocked_at_def)
qed

lemma pruned_blocked_sub:
  "pruned now (rr_targetFailures rr) (rr_targetFailures rr') \<Longrightarrow> blocked_at rr' a t \<tau> \<Longrightarrow> blocked_at rr a t \<tau>"
  unfolding pruned_def blocked_at_def
  by (drule spec [where x = "targetFailureKey a t"])
    (cases "rr_targetFailures rr (targetFailureKey a t)"; auto)

lemma refused_evolves: "evolves S w w' \<Longrightarrow> refused E w' q = refused E w q"
  by (simp add: refused_def evolves_def)

lemma failure_blocked:
  assumes "ssh_library_ok E" and "pool_wf rr w" and "GetForTarget E t ex rr w = (Inr r, rr1, w1)"
    and "dial_failed E t k ttl r err rr1 w1 = (rr2, w2)" and "a \<noteq> addr_of w r" and "blocked_at rr2 a t \<tau>"
  shows "blocked_at rr a t \<tau>"
proof -
  have addr: "addr_of w1 = addr_of w" by (rule round_frame_addr [OF GetForTarget_round [OF assms(1-3)]])
  have "blocked_at rr1 a t \<tau>"
    using ReportTargetFailure_other [OF assms(4) [unfolded dial_failed_def], of a \<tau>] assms(5,6) addr by simp
  moreover have "pruned (time_now E (w_tick w)) (rr_targetFailures rr) (rr_targetFailures rr1)"
    using GetForTarget_frame(2) [OF assms(1-3)] by (simp add: scan_frame_def)
  ultimately show ?thesis by (blast intro: pruned_blocked_sub)
qed

lemma dial_loop_complete:
  assumes "ssh_library_ok E"
  shows "pool_wf rr w \<Longrightarrow> rr_strategy rr = StrategyFailover \<Longrightarrow>
    pool.remaining (rr, w) ex \<le> n \<Longrightarrow> fst (dial_loop E t k ttl n ex prev rr w) = Inl e \<Longrightarrow>
    q \<in> set (rr_servers rr) \<Longrightarrow>
    addr_of w q \<in> ex \<or> addr_of w q \<in> addr_of w ` fst ` set (dial_attempts E t k ttl n ex rr w) \<or>
    (\<exists>m. blocked_at rr (addr_of w q) t (time_now E m)) \<or> refused E w q"
proof (induction n arbitrary: ex prev rr w)
  case 0
  from 0(3) have "card (addr_of w ` set (rr_servers rr) - ex) = 0"
    unfolding pool.remaining_def by (simp add: pool_members_def)
  then have "addr_of w ` set (rr_servers rr) - ex = {}" by simp
  then show ?case using 0(5) by auto
next
  case (Suc n)
  from assms Suc.prems(1) show ?case
  proof (cases rule: dial_round_cases [where t = t and ex = ex and k = k and ttl = ttl and n = n and prev = prev])
    case (stop e rr1 w1 e')
    from GetForTarget_cases [OF assms Suc.prems(1) stop(1)] Suc.prems(2,5)
    show ?thesis by (auto simp: select_failed_def considered_def may_connect_def passed_def excluded_def)
  next
    case (success r rr1 w1 c)
    then show ?thesis using Suc.prems(4) by (simp del: dial_loop.simps)
  next
    case (failure r rr1 w1 err rr2 w2)
    have addr1: "addr_of w1 = addr_of w"
      by (rule round_frame_addr [OF GetForTarget_round [OF assms Suc.prems(1) failure(1)]])
    have rem: "pool.remaining (rr2, w2) (insert (addr_of w r) ex) \<le> n"
      using dial_round_remaining [OF assms Suc.prems(1) failure(1,2)] Suc.prems(3) addr1 by simp
    have strat: "rr_strategy rr2 = StrategyFailover" "refused E w2 q = refused E w q"
      using failure(7) Suc.prems(2) refused_evolves [of "set (rr_servers rr)" w w2 E q]
      by (simp_all add: round_frame_def)
    have err: "fst (dial_loop E t k ttl n (insert (addr_of w r) ex)
        (Some (dial_error (addr_of w r) t err)) rr2 w2) = Inl e"
      using Suc.prems(4) failure(3) by metis
    have q: "q \<in> set (rr_servers rr2)" using Suc.prems(5) failure(10) by simp
    from Suc.IH [OF failure(8) strat(1) rem err q, unfolded failure(9) strat(2)]
      failure_blocked [OF assms Suc.prems(1) failure(1,2)]
    show ?thesis unfolding failure(4) by (cases "addr_of w q = addr_of w r") auto
  qed
qed

section \<open>Properties\<close>

text \<open>The rounds that \<open>DialTargetWithRetries\<close> allows.\<close>

definition dial_rounds :: "int \<Rightarrow> 't RoundRobin \<Rightarrow> nat" where
  "dial_rounds maxUpstreams rr =
     nat (if maxUpstreams \<le> 0 then (if Len rr \<le> 0 then 1 else Len rr) else maxUpstreams)"

lemma DialTargetWithRetries_loop:
  "DialTargetWithRetries E t m k ttl rr w = dial_loop E t k ttl (dial_rounds m rr) {} None rr w"
  by (simp add: DialTargetWithRetries_def dial_rounds_def Let_def)

text \<open>C17: Dialling tries each upstream address at most once and no more upstreams than allowed. All
  attempts but the last failed; the call succeeds exactly with the last attempt, whose
  connection and upstream it returns, and the upstream is a connected server of the pool.\<close>

theorem dial_attempts_sound:
  assumes "ssh_library_ok E" and "pool_wf rr w"
    and "DialTargetWithRetries E t m k ttl rr w = (res, rr', w')"
    and "as = dial_attempts E t k ttl (dial_rounds m rr) {} rr w"
  shows "length as \<le> dial_rounds m rr \<and> distinct (map (addr_of w \<circ> fst) as) \<and>
    fst ` set as \<subseteq> set (rr_servers rr) \<and> pool_wf rr' w' \<and> rr_servers rr' = rr_servers rr \<and>
    (case res of
       Inr (c, r) \<Rightarrow> as \<noteq> [] \<and> last as = (r, Inr c) \<and> (\<forall>a \<in> set (butlast as). \<exists>e. snd a = Inl e) \<and> up w' r
     | Inl e \<Rightarrow> \<forall>a \<in> set as. \<exists>e. snd a = Inl e)"
proof -
  note d = assms(3) [unfolded DialTargetWithRetries_loop]
  from dial_loop_result [OF assms(1,2) d] dial_attempts_facts [OF assms(1,2,4), of res None] d
  show ?thesis by (auto simp: round_frame_def split: sum.splits)
qed

definition no_tracker :: tracker_cell where "no_tracker = None"

definition sample_cell :: tracker_cell where
  "sample_cell = Some (Inr (NewServerStatusTracker '''' False 0))"

theorem dial_attempts_sound_witness:
  "length (dial_attempts (sample_env []) ''x:80'' 1 0 3 {} (sample_pool ''failover'' 1 abc)
     (sample_world abc sample_cell)) \<le> 3"
  using dial_attempts_sound [where E = "sample_env []" and t = "''x:80''" and m = 3 and k = 1 and ttl = 0
      and rr = "sample_pool ''failover'' 1 abc" and w = "sample_world abc sample_cell",
      OF sample_env_ok sample_pool_wf triple refl]
  by (simp add: dial_rounds_def)

text \<open>C18: A tracker without nil entries never panics while dialling, not in the error callback of
  the pool either, and a successful dial leaves the upstream's entry marked as a success with
  its run of failures ended.\<close>

theorem dial_tracker_safe:
  assumes "ssh_library_ok E" and "pool_wf rr w"
    and "rr_OnConnectionError rr = Some (connectionErrorCallback E)"
    and "w_cb w = Some (Inr tr)" and "tracker_wf tr"
    and "DialTargetWithRetries E t m k ttl rr w = (res, rr', w')"
  shows "cell_wf (w_cb w') \<and>
    (\<forall>c r tr'. res = Inr (c, r) \<longrightarrow> w_cb w' = Some (Inr tr') \<longrightarrow>
       (\<exists>e. entry_of tr' (addr_of w r) = Some e \<and> e_Status e = ''success'' \<and> e_ConsecutiveFail e = 0 \<and>
            e_LastError e = ''''))"
proof -
  have "cb_keeps rr cell_wf" using assms(3) by (intro callback_keeps_cell) simp
  moreover have "cell_wf (w_cb w)" using assms(4,5) by (simp add: cell_wf_def)
  ultimately show ?thesis
    using dial_loop_tracker [OF assms(1,2)] assms(6) [unfolded DialTargetWithRetries_loop] by blast
qed

theorem dial_tracker_safe_witness:
  "cell_wf (w_cb (snd (snd (DialTargetWithRetries (sample_env []) ''x:80'' 0 1 0
     ((sample_pool ''failover'' 1 abc)\<lparr>rr_OnConnectionError := Some (connectionErrorCallback (sample_env []))\<rparr>)
     (sample_world abc sample_cell)))))"
proof -
  let ?rr = "(sample_pool ''failover'' 1 abc)\<lparr>rr_OnConnectionError := Some (connectionErrorCallback (sample_env []))\<rparr>"
  have wf: "pool_wf ?rr (sample_world abc sample_cell)"
    using sample_pool_wf [of "''failover''" 1 abc sample_cell]
    by (simp add: pool_wf_def cursor_wf_def servers_wf_def)
  show ?thesis
    using dial_tracker_safe [where m = 0 and t = "''x:80''" and k = 1 and ttl = 0
        and tr = "NewServerStatusTracker '''' False 0",
        OF sample_env_ok wf _ _ NewServerStatusTracker_wf triple]
    by (simp add: sample_world_def sample_cell_def)
qed

text \<open>The number of upstreams to try matters only up to the number of distinct upstream
  addresses: any two limits above it give the same result, pool and tracker.\<close>

theorem dial_limit_irrelevant:
  assumes "ssh_library_ok E" and "pool_wf rr w"
    and "int (card (addr_of w ` set (rr_servers rr))) < m" and "int (card (addr_of w ` set (rr_servers rr))) < l"
  shows "DialTargetWithRetries E t m k ttl rr w = DialTargetWithRetries E t l k ttl rr w"
proof -
  have "pool.remaining (rr, w) {} = card (addr_of w ` set (rr_servers rr))"
    unfolding pool.remaining_def by (simp add: pool_members_def)
  with assms(3,4) have "pool.remaining (rr, w) {} < dial_rounds m rr" "pool.remaining (rr, w) {} < dial_rounds l rr"
    by (simp_all add: dial_rounds_def)
  from dial_loop_bound [OF assms(1,2) this] show ?thesis by (simp add: DialTargetWithRetries_loop)
qed

theorem dial_limit_irrelevant_witness:
  "DialTargetWithRetries (sample_env []) ''x:80'' 7 1 0 (sample_pool ''failover'' 1 abc) (sample_world abc no_tracker) =
   DialTargetWithRetries (sample_env []) ''x:80'' 4 1 0 (sample_pool ''failover'' 1 abc) (sample_world abc no_tracker)"
proof -
  have "card (addr_of (sample_world abc no_tracker) ` set [0..<length abc]) \<le> 3"
    using card_image_le [of "{0..<3::nat}" "addr_of (sample_world abc no_tracker)"] by simp
  then show ?thesis
    using dial_limit_irrelevant [where E = "sample_env []" and t = "''x:80''" and m = 7 and l = 4 and k = 1
        and ttl = 0 and rr = "sample_pool ''failover'' 1 abc" and w = "sample_world abc no_tracker",
        OF sample_env_ok sample_pool_wf]
    by simp
qed

text \<open>C16: In failover mode, when as many upstreams may be tried as the pool has servers, dialling
  gives up only after every upstream was either dialled without success, blocked for the target
  at some moment of the call's start state, or refused an SSH connection.\<close>

theorem dial_complete:
  assumes "ssh_library_ok E" and "pool_wf rr w" and "rr_strategy rr = StrategyFailover"
    and "DialTargetWithRetries E t 0 k ttl rr w = (Inl e, rr', w')" and "q \<in> set (rr_servers rr)"
  shows "(\<exists>(r, res) \<in> set (dial_attempts E t k ttl (dial_rounds 0 rr) {} rr w).
            addr_of w r = addr_of w q \<and> (\<exists>err. res = Inl err)) \<or>
    (\<exists>m. blocked_at rr (addr_of w q) t (time_now E m)) \<or> refused E w q"
proof -
  have "pool.remaining (rr, w) {} = card (addr_of w ` set (rr_servers rr))"
    unfolding pool.remaining_def by (simp add: pool_members_def)
  also have "\<dots> \<le> card (set (rr_servers rr))" by (rule card_image_le) simp
  also have "\<dots> \<le> dial_rounds 0 rr" using card_length [of "rr_servers rr"] by (simp add: dial_rounds_def Len_def)
  finally have rem: "pool.remaining (rr, w) {} \<le> dial_rounds 0 rr" .
  have err: "fst (dial_loop E t k ttl (dial_rounds 0 rr) {} None rr w) = Inl e"
    using assms(4) by (simp add: DialTargetWithRetries_loop)
  have "\<forall>a \<in> set (dial_attempts E t k ttl (dial_rounds 0 rr) {} rr w). \<exists>e. snd a = Inl e"
    using dial_attempts_facts [OF assms(1,2) refl refl, of t k ttl "dial_rounds 0 rr" "{}" None] err by simp
  with dial_loop_complete [OF assms(1-3) rem err assms(5)] show ?thesis by fastforce
qed

lemma sample_dial_fails:
  "fst (DialTargetWithRetries ((sample_env [])\<lparr>conn_dial := \<lambda>n h nw a. Inl (Sentinel ''refused'')\<rparr>) ''x:80'' 0 1 0
     (sample_pool ''failover'' 1 abc) (sample_world abc no_tracker)) =
   Inl (Errorf ''no available servers; last dial error: c:22 failed target x:80: refused'' (Some no_available))"
  by code_simp

theorem dial_complete_witness:
  "(\<exists>(r, res) \<in> set (dial_attempts ((sample_env [])\<lparr>conn_dial := \<lambda>n h nw a. Inl (Sentinel ''refused'')\<rparr>) ''x:80''
       1 0 3 {} (sample_pool ''failover'' 1 abc) (sample_world abc no_tracker)).
     addr_of (sample_world abc no_tracker) r = ''c:22'' \<and> (\<exists>err. res = Inl err)) \<or>
   refused ((sample_env [])\<lparr>conn_dial := \<lambda>n h nw a. Inl (Sentinel ''refused'')\<rparr>) (sample_world abc no_tracker) 2"
proof -
  let ?E = "(sample_env [])\<lparr>conn_dial := \<lambda>n h nw a. Inl (Sentinel ''refused'')\<rparr>"
  have ok: "ssh_library_ok ?E" using sample_env_ok [of "[]"] by (simp add: ssh_library_ok_def)
  show ?thesis
    using dial_complete [OF ok sample_pool_wf _ triple [of "DialTargetWithRetries ?E ''x:80'' 0 1 0
        (sample_pool ''failover'' 1 abc) (sample_world abc no_tracker)", unfolded sample_dial_fails], of 2]
    by (simp add: dial_rounds_def Len_def blocked_at_def)
qed

end
