(* ===== verification/Tunnel.thy ===== *)
theory Tunnel
  imports Dialling
begin

text \<open>
  Connections as byte streams, the tunnel between two of them (\<open>internal/proxy/tunnel.go\<close>) and
  the handler of a forwarded connection (\<open>internal/proxy/forward.go\<close>).
\<close>

section \<open>Byte streams\<close>

text \<open>
  What a peer will send (\<open>c_in\<close>), how its sending ends (\<open>c_end\<close>: an error, \<open>io.EOF\<close> for a regular
  end, or \<open>None\<close> when it stays silent for ever), what was written to it (\<open>c_out\<close>) and how much
  it accepts (\<open>c_accepts\<close>: after that many bytes a write fails). How the bytes are cut into
  packets does not matter to the code. A result \<open>None\<close> means that the call does not return.
\<close>

type_synonym byte = "8 word"

record net_conn =
  c_in :: "byte list"
  c_end :: "go_error option"
  c_accepts :: "(nat \<times> go_error) option"
  c_out :: "byte list"

definition EOF :: go_error where "EOF = Sentinel ''EOF''"
definition ErrUnexpectedEOF :: go_error where "ErrUnexpectedEOF = Sentinel ''unexpected EOF''"

definition Write :: "byte list \<Rightarrow> net_conn \<Rightarrow> go_error option \<times> net_conn" where
  "Write bs c =
     (case c_accepts c of
        Some (n, e) \<Rightarrow>
          if n < length (c_out c) + length bs
          then (Some e, c\<lparr>c_out := c_out c @ take (n - length (c_out c)) bs\<rparr>)
          else (None, c\<lparr>c_out := c_out c @ bs\<rparr>)
      | None \<Rightarrow> (None, c\<lparr>c_out := c_out c @ bs\<rparr>))"

definition ReadFull :: "nat \<Rightarrow> net_conn \<Rightarrow> ((go_error + byte list) \<times> net_conn) option" where
  "ReadFull n c =
     (if n \<le> length (c_in c) then Some (Inr (take n (c_in c)), c\<lparr>c_in := drop n (c_in c)\<rparr>)
      else
        (case c_end c of
           None \<Rightarrow> None
         | Some e \<Rightarrow>
             Some (Inl (if e = EOF then (if c_in c = [] then EOF else ErrUnexpectedEOF) else e),
                   c\<lparr>c_in := []\<rparr>)))"

text \<open>\<open>io.Copy\<close>: the bytes that reached \<open>dst\<close> and the error, which is nil at the end of \<open>src\<close>.\<close>

definition io_Copy :: "net_conn \<Rightarrow> net_conn \<Rightarrow> (byte list \<times> go_error option) option" where
  "io_Copy dst src =
     (let room = (case c_accepts dst of None \<Rightarrow> None | Some (n, e) \<Rightarrow> Some (n - length (c_out dst), e))
      in case room of
           Some (k, e) \<Rightarrow>
             if k < length (c_in src) then Some (take k (c_in src), Some e)
             else (case c_end src of
                     None \<Rightarrow> None
                   | Some e' \<Rightarrow> Some (c_in src, if e' = EOF then None else Some e'))
         | None \<Rightarrow>
             (case c_end src of
                None \<Rightarrow> None
              | Some e' \<Rightarrow> Some (c_in src, if e' = EOF then None else Some e')))"

section \<open>tunnel.go\<close>

definition isClosedOrEOF :: "go_error \<Rightarrow> bool" where
  "isClosedOrEOF err =
     (if err = EOF then True
      else (case err of
              OpError _ inner \<Rightarrow> Error inner = ''use of closed network connection''
            | _ \<Rightarrow> False))"

text \<open>The line a copying goroutine logs.\<close>

definition copy_log :: "string \<Rightarrow> byte list \<times> go_error option \<Rightarrow> string list" where
  "copy_log direction r =
     (case snd r of
        None \<Rightarrow> []
      | Some err \<Rightarrow>
          if isClosedOrEOF err then []
          else [''Tunnel '' @ direction @ '' copy error: '' @ Error err @ '' (bytes='' @
                Itoa (int (length (fst r))) @ '')''])"

text \<open>
  Both goroutines run to their end. The result holds the two byte counts, both connections
  with what was written to them, and the lines logged.
\<close>

definition TunnelBidirectional ::
    "net_conn \<Rightarrow> net_conn \<Rightarrow> ((int \<times> int) \<times> (net_conn \<times> net_conn) \<times> string list) option" where
  "TunnelBidirectional left right =
     (case (io_Copy left right, io_Copy right left) of
        (Some r1, Some r2) \<Rightarrow>
          Some ((int (length (fst r1)), int (length (fst r2))),
                (left\<lparr>c_in := drop (length (fst r2)) (c_in left), c_out := c_out left @ fst r1\<rparr>,
                 right\<lparr>c_in := drop (length (fst r1)) (c_in right), c_out := c_out right @ fst r2\<rparr>),
                copy_log ''right->left'' r1 @ copy_log ''left->right'' r2)
      | _ \<Rightarrow> None)"

definition IsLikelyTargetBlocked :: "env \<Rightarrow> time \<Rightarrow> int \<Rightarrow> int \<Rightarrow> tick \<Rightarrow> bool \<times> tick" where
  "IsLikelyTargetBlocked E start upstreamToClient clientToUpstream n =
     (let elapsed = time_now E n - start in
      if 2 * second < elapsed then (False, Suc n)
      else if clientToUpstream = 0 then (False, Suc n)
      else (upstreamToClient = 0, Suc n))"

section \<open>forward.go\<close>

text \<open>The end of both handlers: the outcome of the tunnel is reported to the pool.\<close>

definition report_tunnel ::
    "env \<Rightarrow> client_ref \<Rightarrow> string \<Rightarrow> int \<Rightarrow> duration \<Rightarrow> time \<Rightarrow> int \<Rightarrow> int \<Rightarrow>
     tracker_cell RoundRobin \<Rightarrow> tracker_cell world \<Rightarrow> tracker_cell RoundRobin \<times> tracker_cell world" where
  "report_tunnel E client targetAddr failThreshold failTTL start rightToLeft leftToRight rr w =
     (case IsLikelyTargetBlocked E start rightToLeft leftToRight (w_tick w) of
        (True, n) \<Rightarrow>
          ReportTargetFailure E (Some client) targetAddr failThreshold failTTL
            (Some (err_new ''tunnel ended too quickly without upstream response'')) rr
            (w\<lparr>w_tick := n\<rparr>)
      | (False, n) \<Rightarrow>
          (ReportTargetSuccess (Some client) targetAddr rr w, w\<lparr>w_tick := n\<rparr>))"

text \<open>
  How a handler ended. Both connections are closed by \<open>defer\<close> in every case; \<open>targets\<close> gives the
  stream behind each connection that dialling returned.
\<close>

datatype handled =
    NoTarget go_error
  | Tunnelled client_ref int int net_conn net_conn

definition HandleConnection ::
    "env \<Rightarrow> (nat \<Rightarrow> net_conn) \<Rightarrow> net_conn \<Rightarrow> string \<Rightarrow> int \<Rightarrow> int \<Rightarrow> int \<Rightarrow> duration \<Rightarrow>
     tracker_cell RoundRobin \<Rightarrow> tracker_cell world \<Rightarrow>
     (handled \<times> tracker_cell RoundRobin \<times> tracker_cell world) option" where
  "HandleConnection E targets conn targetHost targetPort retryUpstreams failThreshold failTTL rr w =
     (let targetAddr = targetHost @ '':'' @ Itoa targetPort in
      case DialTargetWithRetries E targetAddr retryUpstreams failThreshold failTTL rr w of
        (Inl err, rr1, w1) \<Rightarrow> Some (NoTarget err, rr1, w1)
      | (Inr (targetConn, client), rr1, w1) \<Rightarrow>
          (let start = time_now E (w_tick w1); w2 = w1\<lparr>w_tick := Suc (w_tick w1)\<rparr> in
           case TunnelBidirectional conn (targets targetConn) of
             None \<Rightarrow> None
           | Some ((rightToLeft, leftToRight), (conn1, target1), _) \<Rightarrow>
               (case report_tunnel E client targetAddr failThreshold failTTL start
                       rightToLeft leftToRight rr1 w2 of
                  (rr2, w3) \<Rightarrow>
                    Some (Tunnelled client rightToLeft leftToRight conn1 target1, rr2, w3))))"

section \<open>Properties\<close>

lemma io_Copy_prefix:
  assumes "io_Copy dst src = Some (bs, err)"
  shows "bs = take (length bs) (c_in src)"
    and "err = None \<Longrightarrow> bs = c_in src \<and> c_end src = Some EOF"
  using assms by (auto simp: io_Copy_def Let_def split: option.splits prod.splits if_splits)

lemma io_Copy_complete:
  "c_accepts dst = None \<Longrightarrow> io_Copy dst src =
     (case c_end src of None \<Rightarrow> None | Some e \<Rightarrow> Some (c_in src, if e = EOF then None else Some e))"
  by (simp add: io_Copy_def)


definition sample_stream :: "byte list \<Rightarrow> net_conn" where
  "sample_stream bs = \<lparr>c_in = bs, c_end = Some EOF, c_accepts = None, c_out = []\<rparr>"


end
