(* ===== verification/Socks5.thy ===== *)
theory Socks5
  imports Tunnel
begin

unbundle bit_operations_syntax

text \<open>
  The SOCKS5 front end (\<open>internal/proxy/socks5.go\<close>): the request parser, the replies and the
  handler of a connection, over the byte streams of \<open>Tunnel\<close>. The request grammar of RFC 1928
  is stated separately and the parser is shown to accept exactly it.
\<close>

section \<open>Constants\<close>

definition socksVersion5 :: byte where "socksVersion5 = 0x05"
definition socksCmdConnect :: byte where "socksCmdConnect = 0x01"
definition socksAtypIPv4 :: byte where "socksAtypIPv4 = 0x01"
definition socksAtypDomainName :: byte where "socksAtypDomainName = 0x03"
definition socksAtypIPv6 :: byte where "socksAtypIPv6 = 0x04"
definition socksReplySucceeded :: byte where "socksReplySucceeded = 0x00"
definition socksReplyGeneral :: byte where "socksReplyGeneral = 0x01"
definition socksReplyCmdUnsup :: byte where "socksReplyCmdUnsup = 0x07"
definition socksReplyAddrUnsup :: byte where "socksReplyAddrUnsup = 0x08"

lemmas socks_consts = socksVersion5_def socksCmdConnect_def socksAtypIPv4_def
  socksAtypDomainName_def socksAtypIPv6_def socksReplySucceeded_def socksReplyGeneral_def
  socksReplyCmdUnsup_def socksReplyAddrUnsup_def

section \<open>Addresses as text\<close>

text \<open>\<open>binary.BigEndian.Uint16\<close>, and \<open>net.IP.String\<close> for the two lengths that occur.\<close>

definition Uint16 :: "byte list \<Rightarrow> 16 word" where
  "Uint16 b = ucast (b ! 1) OR push_bit 8 (ucast (b ! 0))"

definition dotted :: "byte list \<Rightarrow> string" where
  "dotted bs = Join ''.'' (map (\<lambda>b. Itoa (uint b)) bs)"

fun hex_string :: "nat \<Rightarrow> string" where
  "hex_string n = (if n < 16 then [hex_digit n] else hex_string (n div 16) @ [hex_digit (n mod 16)])"

declare hex_string.simps [simp del]

fun groups :: "byte list \<Rightarrow> nat list" where
  "groups (a # b # r) = (256 * unat a + unat b) # groups r"
| "groups _ = []"

text \<open>The first of the longest runs of at least two zero groups, as its start and its end.\<close>

definition zero_run :: "nat list \<Rightarrow> (nat \<times> nat) option" where
  "zero_run gs =
     fold (\<lambda>i best.
        let l = length (takeWhile (\<lambda>g. g = 0) (drop i gs));
            longest = (case best of None \<Rightarrow> 0 | Some (s, e) \<Rightarrow> e - s)
        in if 2 \<le> l \<and> longest < l then Some (i, i + l) else best) [0..<length gs] None"

definition colon_hex :: "nat list \<Rightarrow> string" where
  "colon_hex gs =
     (case zero_run gs of
        None \<Rightarrow> Join '':'' (map hex_string gs)
      | Some (s, e) \<Rightarrow>
          Join '':'' (map hex_string (take s gs)) @ ''::'' @ Join '':'' (map hex_string (drop e gs)))"

definition v4_mapped :: "byte list \<Rightarrow> bool" where
  "v4_mapped bs \<longleftrightarrow> take 12 bs = replicate 10 0 @ [0xff, 0xff]"

definition IP_String :: "byte list \<Rightarrow> string" where
  "IP_String bs =
     (if length bs = 4 then dotted bs
      else if v4_mapped bs then dotted (drop 12 bs)
      else colon_hex (groups bs))"

definition string_of_bytes :: "byte list \<Rightarrow> string" where
  "string_of_bytes bs = map (\<lambda>b. char_of (unat b)) bs"

section \<open>The request\<close>

definition writeSocks5Reply :: "byte \<Rightarrow> net_conn \<Rightarrow> net_conn" where
  "writeSocks5Reply reply conn =
     snd (Write [socksVersion5, reply, 0x00, socksAtypIPv4, 0x00, 0x00, 0x00, 0x00, 0x00, 0x00] conn)"

type_synonym target_read = "((go_error + string) \<times> net_conn) option"

text \<open>Read \<open>n\<close> bytes and go on with them; a read error is wrapped and ends the function.\<close>

definition read_then :: "nat \<Rightarrow> string \<Rightarrow> (byte list \<Rightarrow> net_conn \<Rightarrow> target_read) \<Rightarrow> net_conn \<Rightarrow> target_read" where
  "read_then n what k conn =
     (case ReadFull n conn of
        None \<Rightarrow> None
      | Some (Inl err, conn1) \<Rightarrow> Some (Inl (Errorf (what @ '': '' @ Error err) (Some err)), conn1)
      | Some (Inr bs, conn1) \<Rightarrow> k bs conn1)"

definition read_port :: "string \<Rightarrow> net_conn \<Rightarrow> target_read" where
  "read_port host =
     read_then 2 ''failed to read destination port''
       (\<lambda>portBuf conn. Some (Inr (host @ '':'' @ Itoa (uint (Uint16 portBuf))), conn))"

text \<open>The \<open>switch\<close> on the kind of address.\<close>

definition read_address :: "byte \<Rightarrow> net_conn \<Rightarrow> target_read" where
  "read_address atyp conn =
     (if atyp = socksAtypIPv4 then
        read_then 4 ''failed to read ipv4 address'' (\<lambda>addr. read_port (IP_String addr)) conn
      else if atyp = socksAtypDomainName then
        read_then 1 ''failed to read domain length''
          (\<lambda>lenBuf. read_then (unat (lenBuf ! 0)) ''failed to read domain''
             (\<lambda>domain. read_port (string_of_bytes domain))) conn
      else if atyp = socksAtypIPv6 then
        read_then 16 ''failed to read ipv6 address'' (\<lambda>addr. read_port (IP_String addr)) conn
      else
        Some (Inl (err_new (''unsupported address type: '' @ Itoa (uint atyp))),
              writeSocks5Reply socksReplyAddrUnsup conn))"

definition readSocks5Target :: "net_conn \<Rightarrow> target_read" where
  "readSocks5Target =
     read_then 4 ''failed to read socks5 request header''
       (\<lambda>header conn.
          if header ! 0 \<noteq> socksVersion5 then
            Some (Inl (err_new (''unsupported socks version: '' @ Itoa (uint (header ! 0)))), conn)
          else if header ! 1 \<noteq> socksCmdConnect then
            Some (Inl (err_new (''unsupported socks command: '' @ Itoa (uint (header ! 1)))),
                  writeSocks5Reply socksReplyCmdUnsup conn)
          else read_address (header ! 3) conn)"

section \<open>The handler\<close>

text \<open>
  How a SOCKS5 connection ended, with the connection as it was then: rejected with the line
  that is logged (empty when nothing is), no target, or tunnelled. It is closed in every case.
\<close>

datatype socks_end =
    Rejected string net_conn
  | DialFailed string go_error net_conn
  | Proxied string client_ref int int net_conn net_conn

type_synonym socks_result = "(socks_end \<times> tracker_cell RoundRobin \<times> tracker_cell world) option"

text \<open>The second half, from the target address on.\<close>

definition serve_target ::
    "env \<Rightarrow> (nat \<Rightarrow> net_conn) \<Rightarrow> net_conn \<Rightarrow> string \<Rightarrow> int \<Rightarrow> int \<Rightarrow> duration \<Rightarrow>
     tracker_cell RoundRobin \<Rightarrow> tracker_cell world \<Rightarrow> socks_result" where
  "serve_target E targets conn targetAddr retryUpstreams failThreshold failTTL rr w =
     (case DialTargetWithRetries E targetAddr retryUpstreams failThreshold failTTL rr w of
        (Inl err, rr1, w1) \<Rightarrow>
          Some (DialFailed targetAddr err (writeSocks5Reply socksReplyGeneral conn), rr1, w1)
      | (Inr (targetConn, client), rr1, w1) \<Rightarrow>
          (let conn1 = writeSocks5Reply socksReplySucceeded conn;
               start = time_now E (w_tick w1); w2 = w1\<lparr>w_tick := Suc (w_tick w1)\<rparr> in
           case TunnelBidirectional conn1 (targets targetConn) of
             None \<Rightarrow> None
           | Some ((rightToLeft, leftToRight), (conn2, target1), _) \<Rightarrow>
               (case report_tunnel E client targetAddr failThreshold failTTL start
                       rightToLeft leftToRight rr1 w2 of
                  (rr2, w3) \<Rightarrow>
                    Some (Proxied targetAddr client rightToLeft leftToRight conn2 target1, rr2, w3))))"

text \<open>From the request on.\<close>

definition serve_request ::
    "env \<Rightarrow> (nat \<Rightarrow> net_conn) \<Rightarrow> net_conn \<Rightarrow> int \<Rightarrow> int \<Rightarrow> duration \<Rightarrow>
     tracker_cell RoundRobin \<Rightarrow> tracker_cell world \<Rightarrow> socks_result" where
  "serve_request E targets conn retryUpstreams failThreshold failTTL rr w =
     (case readSocks5Target conn of
        None \<Rightarrow> None
      | Some (Inl err, c1) \<Rightarrow>
          Some (Rejected (if errors_Is err EOF then '''' else ''SOCKS5 request parse failed: '' @ Error err)
                  c1, rr, w)
      | Some (Inr targetAddr, c1) \<Rightarrow>
          serve_target E targets c1 targetAddr retryUpstreams failThreshold failTTL rr w)"

definition HandleSocks5Connection ::
    "env \<Rightarrow> (nat \<Rightarrow> net_conn) \<Rightarrow> net_conn \<Rightarrow> int \<Rightarrow> int \<Rightarrow> duration \<Rightarrow>
     tracker_cell RoundRobin \<Rightarrow> tracker_cell world \<Rightarrow> socks_result" where
  "HandleSocks5Connection E targets conn retryUpstreams failThreshold failTTL rr w =
     (case ReadFull 2 conn of
        None \<Rightarrow> None
      | Some (Inl err, c1) \<Rightarrow> Some (Rejected (''SOCKS5 handshake read failed: '' @ Error err) c1, rr, w)
      | Some (Inr hello, c1) \<Rightarrow>
     if hello ! 0 \<noteq> socksVersion5 then
       Some (Rejected (''Unsupported SOCKS version: '' @ Itoa (uint (hello ! 0))) c1, rr, w)
     else if unat (hello ! 1) = 0 then Some (Rejected ''SOCKS5 method count is zero'' c1, rr, w)
     else
     (case ReadFull (unat (hello ! 1)) c1 of
        None \<Rightarrow> None
      | Some (Inl err, c2) \<Rightarrow> Some (Rejected (''SOCKS5 methods read failed: '' @ Error err) c2, rr, w)
      | Some (Inr methods, c2) \<Rightarrow>
     (case Write [socksVersion5, 0x00] c2 of
        (Some err, c3) \<Rightarrow>
          Some (Rejected (''SOCKS5 method selection write failed: '' @ Error err) c3, rr, w)
      | (None, c3) \<Rightarrow>
     serve_request E targets c3 retryUpstreams failThreshold failTTL rr w)))"

section \<open>The request grammar\<close>

text \<open>
  A CONNECT request of RFC 1928: version, command, a reserved byte, the kind of address, the
  address and the port, most significant byte first. A domain name is preceded by its length.
\<close>

datatype socks_addr = IPv4 "byte list" | DomainName "byte list" | IPv6 "byte list"

fun addr_ok :: "socks_addr \<Rightarrow> bool" where
  "addr_ok (IPv4 bs) \<longleftrightarrow> length bs = 4"
| "addr_ok (DomainName bs) \<longleftrightarrow> length bs < 256"
| "addr_ok (IPv6 bs) \<longleftrightarrow> length bs = 16"

fun addr_bytes :: "socks_addr \<Rightarrow> byte list" where
  "addr_bytes (IPv4 bs) = 1 # bs"
| "addr_bytes (DomainName bs) = 3 # word_of_nat (length bs) # bs"
| "addr_bytes (IPv6 bs) = 4 # bs"

fun addr_text :: "socks_addr \<Rightarrow> string" where
  "addr_text (IPv4 bs) = IP_String bs"
| "addr_text (DomainName bs) = string_of_bytes bs"
| "addr_text (IPv6 bs) = IP_String bs"

definition port_bytes :: "16 word \<Rightarrow> byte list" where
  "port_bytes p = [ucast (drop_bit 8 p), ucast p]"

definition request_bytes :: "byte \<times> socks_addr \<times> 16 word \<Rightarrow> byte list" where
  "request_bytes q = (case q of (r, a, p) \<Rightarrow> [5, 1, r] @ addr_bytes a @ port_bytes p)"

definition take_bytes :: "nat \<Rightarrow> byte list \<Rightarrow> (byte list \<times> byte list) option" where
  "take_bytes n bs = (if n \<le> length bs then Some (take n bs, drop n bs) else None)"

definition parse_port :: "byte list \<Rightarrow> (16 word \<times> byte list) option" where
  "parse_port bs = map_option (\<lambda>(b, rest). (Uint16 b, rest)) (take_bytes 2 bs)"

fun parse_addr :: "byte list \<Rightarrow> (socks_addr \<times> byte list) option" where
  "parse_addr [] = None"
| "parse_addr (t # bs) =
     (if t = 1 then map_option (apfst IPv4) (take_bytes 4 bs)
      else if t = 3 then
        (case bs of [] \<Rightarrow> None | n # bs1 \<Rightarrow> map_option (apfst DomainName) (take_bytes (unat n) bs1))
      else if t = 4 then map_option (apfst IPv6) (take_bytes 16 bs)
      else None)"

definition parse_request :: "byte list \<Rightarrow> ((byte \<times> socks_addr \<times> 16 word) \<times> byte list) option" where
  "parse_request bs =
     (case bs of
        v # c # r # bs1 \<Rightarrow>
          if v = 5 \<and> c = 1 then
            (case parse_addr bs1 of
               None \<Rightarrow> None
             | Some (a, bs2) \<Rightarrow> map_option (\<lambda>(p, rest). ((r, a, p), rest)) (parse_port bs2))
          else None
      | _ \<Rightarrow> None)"

lemma take_bytes_append [simp]: "length bs = n \<Longrightarrow> take_bytes n (bs @ rest) = Some (bs, rest)"
  by (simp add: take_bytes_def)

lemma take_bytes_SomeD: "take_bytes n bs = Some (a, rest) \<Longrightarrow> bs = a @ rest \<and> length a = n"
  by (auto simp: take_bytes_def split: if_splits)

lemma Uint16_port_bytes: "Uint16 (port_bytes p) = p"
  unfolding Uint16_def port_bytes_def by (rule bit_word_eqI) (auto simp: bit_simps)

lemma port_bytes_Uint16:
  assumes "length b = 2"
  shows "port_bytes (Uint16 b) = b"
proof -
  from assms obtain x y where b: "b = [x, y]"
    by (metis (no_types, lifting) Suc_length_conv length_0_conv numeral_2_eq_2)
  have "(ucast (drop_bit 8 (ucast y OR push_bit 8 (ucast x) :: 16 word)) :: byte) = x"
    by (rule bit_word_eqI) (auto simp: bit_simps dest: bit_imp_le_length)
  moreover have "(ucast (ucast y OR push_bit 8 (ucast x) :: 16 word) :: byte) = y"
    by (rule bit_word_eqI) (auto simp: bit_simps)
  ultimately show ?thesis by (simp add: b Uint16_def port_bytes_def)
qed

lemma length_port_bytes [simp]: "length (port_bytes p) = 2"
  by (simp add: port_bytes_def)

lemma parse_port_bytes: "parse_port (port_bytes p @ rest) = Some (p, rest)"
  by (simp add: parse_port_def Uint16_port_bytes)

interpretation port_codec: stream_codec port_bytes parse_port "\<lambda>_. True"
  by unfold_locales (rule parse_port_bytes)

lemma parse_addr_bytes: "addr_ok a \<Longrightarrow> parse_addr (addr_bytes a @ rest) = Some (a, rest)"
  by (cases a) (simp_all add: unat_of_nat)

interpretation addr_codec: stream_codec addr_bytes parse_addr addr_ok
  by unfold_locales (rule parse_addr_bytes)

interpretation request_codec: stream_codec request_bytes parse_request "\<lambda>(r, a, p). addr_ok a"
  by unfold_locales
    (auto simp: request_bytes_def parse_request_def addr_codec.parse_enc port_codec.parse_enc)

lemma parse_port_sound: "parse_port bs = Some (p, rest) \<Longrightarrow> bs = port_bytes p @ rest"
  by (auto simp: parse_port_def port_bytes_Uint16 dest!: take_bytes_SomeD)

lemma parse_addr_sound: "parse_addr bs = Some (a, rest) \<Longrightarrow> addr_ok a \<and> bs = addr_bytes a @ rest"
proof (cases bs)
  case (Cons t bs1)
  have "unat n < 256" for n :: byte using unsigned_less [of n, where 'a = nat] by simp
  moreover assume "parse_addr bs = Some (a, rest)"
  ultimately show ?thesis
    using Cons by (auto split: if_splits list.splits dest!: take_bytes_SomeD)
qed simp

lemma parse_request_sound:
  "parse_request bs = Some ((r, a, p), rest) \<longleftrightarrow> addr_ok a \<and> bs = request_bytes (r, a, p) @ rest"
proof
  assume "parse_request bs = Some ((r, a, p), rest)"
  then show "addr_ok a \<and> bs = request_bytes (r, a, p) @ rest"
    by (auto simp: parse_request_def request_bytes_def split: list.splits option.splits if_splits
        dest!: parse_addr_sound parse_port_sound)
next
  assume "addr_ok a \<and> bs = request_bytes (r, a, p) @ rest"
  then show "parse_request bs = Some ((r, a, p), rest)" using request_codec.parse_enc by auto
qed

section \<open>The parser against the grammar\<close>

lemma ReadFull_take_bytes:
  "ReadFull n c = Some (Inr bs, c') \<longleftrightarrow>
     (\<exists>rest. take_bytes n (c_in c) = Some (bs, rest) \<and> c' = c\<lparr>c_in := rest\<rparr>)"
  by (auto simp: ReadFull_def take_bytes_def split: option.splits)

lemma read_then_Inr:
  "read_then n what k c = Some (Inr s, c') \<longleftrightarrow>
     (\<exists>bs rest. take_bytes n (c_in c) = Some (bs, rest) \<and> k bs (c\<lparr>c_in := rest\<rparr>) = Some (Inr s, c'))"
proof -
  have "read_then n what k c = Some (Inr s, c') \<longleftrightarrow>
      (\<exists>bs c1. ReadFull n c = Some (Inr bs, c1) \<and> k bs c1 = Some (Inr s, c'))"
    by (auto simp: read_then_def split: option.splits sum.splits)
  then show ?thesis by (auto simp: ReadFull_take_bytes)
qed

lemma read_port_Inr:
  "read_port host c = Some (Inr s, c') \<longleftrightarrow>
     (\<exists>p rest. parse_port (c_in c) = Some (p, rest) \<and> s = host @ '':'' @ Itoa (uint p) \<and>
        c' = c\<lparr>c_in := rest\<rparr>)"
  by (auto simp: read_port_def read_then_Inr parse_port_def)

definition target_text :: "socks_addr \<Rightarrow> 16 word \<Rightarrow> string" where
  "target_text a p = addr_text a @ '':'' @ Itoa (uint p)"

text \<open>Each kind of address: the fields are read in the order of the grammar.\<close>

lemma read_body:
  "read_then n what (\<lambda>b. read_port (f b)) c = Some (Inr s, c') \<longleftrightarrow>
     (\<exists>b r p rest. take_bytes n (c_in c) = Some (b, r) \<and> parse_port r = Some (p, rest) \<and>
        s = f b @ '':'' @ Itoa (uint p) \<and> c' = c\<lparr>c_in := rest\<rparr>)"
  by (auto simp: read_then_Inr read_port_Inr)

lemma read_name:
  "read_then (Suc 0) what1 (\<lambda>lb. read_then (unat (lb ! 0)) what2 (\<lambda>b. read_port (f b))) c = Some (Inr s, c') \<longleftrightarrow>
     (\<exists>n l b r p rest. c_in c = n # l \<and> take_bytes (unat n) l = Some (b, r) \<and> parse_port r = Some (p, rest) \<and>
        s = f b @ '':'' @ Itoa (uint p) \<and> c' = c\<lparr>c_in := rest\<rparr>)"
  by (cases "c_in c") (simp_all add: read_then_Inr [of "Suc 0"] read_body, simp_all add: take_bytes_def)

lemma parse_addr_Some:
  "parse_addr (t # bs) = Some (a, r) \<longleftrightarrow>
     t = 1 \<and> (\<exists>b. take_bytes 4 bs = Some (b, r) \<and> a = IPv4 b) \<or>
     t = 3 \<and> (\<exists>n l b. bs = n # l \<and> take_bytes (unat n) l = Some (b, r) \<and> a = DomainName b) \<or>
     t = 4 \<and> (\<exists>b. take_bytes 16 bs = Some (b, r) \<and> a = IPv6 b)"
  by (cases bs) (auto simp: apfst_def map_prod_def)

lemma read_address_parse:
  "read_address t c = Some (Inr s, c') \<longleftrightarrow>
     (\<exists>a r p rest. parse_addr (t # c_in c) = Some (a, r) \<and> parse_port r = Some (p, rest) \<and>
        s = target_text a p \<and> c' = c\<lparr>c_in := rest\<rparr>)"
proof -
  consider "t = 1" | "t = 3" | "t = 4" | "t \<noteq> 1" "t \<noteq> 3" "t \<noteq> 4" by blast
  then show ?thesis
  proof cases
    case 1
    then show ?thesis
      by (auto simp: read_address_def socks_consts read_body parse_addr_Some target_text_def
          simp del: parse_addr.simps)
  next
    case 2
    then show ?thesis
      by (auto simp: read_address_def socks_consts read_name parse_addr_Some target_text_def
          simp del: parse_addr.simps)
  next
    case 3
    then show ?thesis
      by (auto simp: read_address_def socks_consts read_body parse_addr_Some target_text_def
          simp del: parse_addr.simps)
  qed (simp add: read_address_def socks_consts)
qed

lemma parse_request_Some:
  "parse_request bs = Some ((r, a, p), rest) \<longleftrightarrow>
     (\<exists>t bs1 bs2. bs = 5 # 1 # r # t # bs1 \<and> parse_addr (t # bs1) = Some (a, bs2) \<and>
        parse_port bs2 = Some (p, rest))" (is "?l \<longleftrightarrow> ?r")
proof
  show "?l \<Longrightarrow> ?r"
    by (auto simp: parse_request_def simp del: parse_addr.simps split: list.splits if_splits option.splits)
      (metis (no_types, lifting) list.exhaust option.distinct(1) parse_addr.simps(1))
qed (auto simp: parse_request_def simp del: parse_addr.simps)

lemma take_bytes_4:
  "take_bytes 4 l = Some (h, bs) \<longleftrightarrow> (\<exists>a b c d. l = a # b # c # d # bs \<and> h = [a, b, c, d])"
  by (auto simp: take_bytes_def numeral_eq_Suc Suc_le_length_iff)

lemma read_target_parse:
  "readSocks5Target c = Some (Inr s, c') \<longleftrightarrow>
     (\<exists>r a p rest. parse_request (c_in c) = Some ((r, a, p), rest) \<and> s = target_text a p \<and>
        c' = c\<lparr>c_in := rest\<rparr>)"
proof -
  have "readSocks5Target c = Some (Inr s, c') \<longleftrightarrow>
      (\<exists>r t bs. c_in c = 5 # 1 # r # t # bs \<and> read_address t (c\<lparr>c_in := bs\<rparr>) = Some (Inr s, c'))"
    by (auto simp: readSocks5Target_def read_then_Inr take_bytes_4 socks_consts split: if_splits)
      (rule exI [of _ "[5, 1, r, t]" for r t], simp)
  also have "\<dots> \<longleftrightarrow>
      (\<exists>r t bs a l p rest. c_in c = 5 # 1 # r # t # bs \<and> parse_addr (t # bs) = Some (a, l) \<and>
         parse_port l = Some (p, rest) \<and> s = target_text a p \<and> c' = c\<lparr>c_in := rest\<rparr>)"
    by (simp add: read_address_parse del: parse_addr.simps)
  also have "\<dots> \<longleftrightarrow>
      (\<exists>r a p rest. parse_request (c_in c) = Some ((r, a, p), rest) \<and> s = target_text a p \<and>
        c' = c\<lparr>c_in := rest\<rparr>)"
    unfolding parse_request_Some by iprover
  finally show ?thesis .
qed

section \<open>Properties\<close>

text \<open>C24: The request parser accepts exactly the CONNECT requests of the grammar: it returns a target
  if and only if the input starts with the bytes of a request (with any reserved byte) for an
  IPv4 address, a domain name of at most 255 bytes or an IPv6 address; the target is then the
  address and the port as text, and the input behind the request stays unread.\<close>

theorem socks5_target_exact:
  "readSocks5Target c = Some (Inr s, c') \<longleftrightarrow>
     (\<exists>r a p rest. addr_ok a \<and> c_in c = request_bytes (r, a, p) @ rest \<and> s = target_text a p \<and>
        c' = c\<lparr>c_in := rest\<rparr>)"
  unfolding read_target_parse parse_request_sound by blast

theorem socks5_target_exact_witness:
  "readSocks5Target (sample_stream [5, 1, 0, 3, 2, 0x61, 0x62, 0x1F, 0x90, 7]) =
     Some (Inr ''ab:8080'', sample_stream [7])"
proof -
  show ?thesis
  proof (rule socks5_target_exact [THEN iffD2], intro exI conjI)
    show "addr_ok (DomainName [0x61, 0x62])" by simp
    show "c_in (sample_stream [5, 1, 0, 3, 2, 0x61, 0x62, 0x1F, 0x90, 7]) =
        request_bytes (0, DomainName [0x61, 0x62], 8080) @ [7]"
      by (simp add: request_bytes_def port_bytes_def sample_stream_def)
    show "''ab:8080'' = target_text (DomainName [0x61, 0x62]) 8080"
      by (simp add: target_text_def string_of_bytes_def Itoa_simps) code_simp
  qed (simp add: sample_stream_def)
qed

lemma Write_all: "c_accepts c = None \<Longrightarrow> Write bs c = (None, c\<lparr>c_out := c_out c @ bs\<rparr>)"
  by (simp add: Write_def)

definition reply_bytes :: "byte \<Rightarrow> byte list" where
  "reply_bytes reply = [5, reply, 0, 1, 0, 0, 0, 0, 0, 0]"

lemma writeSocks5Reply_all:
  "c_accepts c = None \<Longrightarrow> writeSocks5Reply reply c = c\<lparr>c_out := c_out c @ reply_bytes reply\<rparr>"
  by (simp add: writeSocks5Reply_def Write_all reply_bytes_def socks_consts)

lemma ReadFull_append:
  "length bs = n \<Longrightarrow> c_in c = bs @ rest \<Longrightarrow> ReadFull n c = Some (Inr bs, c\<lparr>c_in := rest\<rparr>)"
  by (simp add: ReadFull_def)

lemma handshake_served:
  assumes "c_accepts conn = None" and "methods \<noteq> []" and "length methods < 256" and "addr_ok a"
    and "c_in conn = [5, word_of_nat (length methods)] @ methods @ request_bytes (r, a, p) @ rest"
  shows "HandleSocks5Connection E targets conn m k ttl rr w =
    serve_target E targets (conn\<lparr>c_out := c_out conn @ [5, 0], c_in := rest\<rparr>) (target_text a p) m k ttl rr w"
proof -
  let ?l = "length methods" and ?req = "request_bytes (r, a, p) @ rest"
  let ?c3 = "conn\<lparr>c_in := ?req, c_out := c_out conn @ [5, 0]\<rparr>"
  have n: "unat (word_of_nat ?l :: byte) = ?l" using assms(3) by (simp add: unat_of_nat)
  have "ReadFull 2 conn = Some (Inr [5, word_of_nat ?l], conn\<lparr>c_in := methods @ ?req\<rparr>)"
    using assms(5) by (intro ReadFull_append) simp_all
  moreover have "ReadFull ?l (conn\<lparr>c_in := methods @ ?req\<rparr>) = Some (Inr methods, conn\<lparr>c_in := ?req\<rparr>)"
    using ReadFull_append [of methods ?l "conn\<lparr>c_in := methods @ ?req\<rparr>" ?req] by simp
  moreover have "Write [5, 0] (conn\<lparr>c_in := ?req\<rparr>) = (None, ?c3)"
    using assms(1) by (simp add: Write_all)
  moreover have "readSocks5Target ?c3 = Some (Inr (target_text a p), ?c3\<lparr>c_in := rest\<rparr>)"
    unfolding read_target_parse parse_request_sound using assms(4) by fastforce
  ultimately show ?thesis
    using assms(2) n by (simp add: HandleSocks5Connection_def serve_request_def socks_consts)
qed

text \<open>C26: A client that offers any methods at all and sends a request is served: whatever the
  methods are, no authentication is selected, the target of the request is dialled, and the
  bytes behind the request are left for the tunnel.\<close>

theorem socks5_served:
  assumes "c_accepts conn = None" and "methods \<noteq> []" and "length methods < 256" and "addr_ok a"
    and "c_in conn = [5, word_of_nat (length methods)] @ methods @ request_bytes (r, a, p) @ rest"
  shows "HandleSocks5Connection E targets conn m k ttl rr w =
    serve_target E targets (conn\<lparr>c_out := c_out conn @ [5, 0], c_in := rest\<rparr>) (target_text a p) m k ttl rr w"
  using assms by (rule handshake_served)

theorem socks5_served_witness:
  "HandleSocks5Connection (sample_env []) (\<lambda>_. sample_stream [9]) (sample_stream ([5, 1, 2] @ request_bytes (0, IPv4 [1, 2, 3, 4], 80) @ [7]))
     1 1 0 (sample_pool ''failover'' 1 abc) (sample_world abc no_tracker) =
   serve_target (sample_env []) (\<lambda>_. sample_stream [9]) ((sample_stream [7])\<lparr>c_out := [5, 0]\<rparr>) ''1.2.3.4:80''
     1 1 0 (sample_pool ''failover'' 1 abc) (sample_world abc no_tracker)"
proof -
  have "target_text (IPv4 [1, 2, 3, 4]) 80 = ''1.2.3.4:80''"
    by (simp add: target_text_def IP_String_def dotted_def Itoa_simps) code_simp
  then show ?thesis
    using socks5_served [where conn = "sample_stream ([5, 1, 2] @ request_bytes (0, IPv4 [1, 2, 3, 4], 80) @ [7])"
        and methods = "[2]" and a = "IPv4 [1, 2, 3, 4]" and p = 80 and r = 0 and rest = "[7]" and m = 1 and k = 1
        and ttl = 0 and E = "sample_env []" and targets = "\<lambda>_. sample_stream [9]"
        and rr = "sample_pool ''failover'' 1 abc" and w = "sample_world abc no_tracker"]
    by (simp add: sample_stream_def)
qed

lemma ReadFull_frame:
  assumes "ReadFull n c = Some (x, c')"
  shows "c_out c' = c_out c \<and> c_accepts c' = c_accepts c"
  using assms by (auto simp: ReadFull_def split: if_splits option.splits)

lemma read_then_Inl:
  assumes "read_then n what k c = Some (Inl e, c')"
  obtains "c_out c' = c_out c" | bs c1 where "c_out c1 = c_out c" and "c_accepts c1 = c_accepts c"
    and "k bs c1 = Some (Inl e, c')"
  using assms ReadFull_frame [of n c]
  by (auto simp: read_then_def split: option.splits sum.splits)

lemma read_port_Inl: "read_port host c = Some (Inl e, c') \<Longrightarrow> c_out c' = c_out c"
  unfolding read_port_def by (erule read_then_Inl) auto

lemma read_body_Inl:
  "read_then n what (\<lambda>b. read_port (f b)) c = Some (Inl e, c') \<Longrightarrow> c_out c' = c_out c"
  by (erule read_then_Inl) (auto dest: read_port_Inl)

lemma read_address_Inl:
  assumes "read_address t c = Some (Inl e, c')" and "c_accepts c = None"
  shows "c_out c' = c_out c \<or> c_out c' = c_out c @ reply_bytes 8"
proof -
  have "c_out c' = c_out c" if "read_then 1 what1 (\<lambda>lb. read_then (unat (lb ! 0)) what2
      (\<lambda>b. read_port (f b))) c = Some (Inl e, c')" for what1 what2 f
    using that by (rule read_then_Inl) (auto dest: read_body_Inl)
  with assms show ?thesis
    by (auto simp: read_address_def writeSocks5Reply_all socksReplyAddrUnsup_def
        split: if_splits dest: read_body_Inl)
qed

lemma readSocks5Target_Inl:
  assumes "readSocks5Target c = Some (Inl e, c')" and "c_accepts c = None"
  shows "\<exists>reply \<in> {[], reply_bytes 7, reply_bytes 8}. c_out c' = c_out c @ reply"
  using assms(1) unfolding readSocks5Target_def
  by (rule read_then_Inl)
    (use assms(2) in \<open>auto simp: writeSocks5Reply_all socksReplyCmdUnsup_def dest: read_address_Inl
      split: if_splits\<close>)

lemma tunnel_streams:
  assumes "TunnelBidirectional left right = Some ((r2l, l2r), (left', right'), logs)"
  shows "c_out left' = c_out left @ take (nat r2l) (c_in right)"
    and "c_out right' = c_out right @ take (nat l2r) (c_in left)"
proof -
  from assms obtain r1 r2 where r: "io_Copy left right = Some r1" "io_Copy right left = Some r2"
    by (auto simp: TunnelBidirectional_def split: option.splits)
  from io_Copy_prefix(1) [of left right "fst r1" "snd r1"] io_Copy_prefix(1) [of right left "fst r2" "snd r2"]
  show "c_out left' = c_out left @ take (nat r2l) (c_in right)"
    and "c_out right' = c_out right @ take (nat l2r) (c_in left)"
    using assms r by (auto simp: TunnelBidirectional_def)
qed

text \<open>The second half of the handler: the reply, and what passes through the tunnel.\<close>

lemma serve_target_cases:
  assumes "serve_target E targets c t m k ttl rr w = Some (e, rr', w')" and "c_accepts c = None"
  obtains (failed) err c' where "e = DialFailed t err c'" and "c_out c' = c_out c @ reply_bytes 1"
  | (proxied) u d i c' target' r where "e = Proxied t r u d c' target'"
      and "c_out c' = c_out c @ reply_bytes 0 @ take (nat u) (c_in (targets i))"
      and "c_out target' = c_out (targets i) @ take (nat d) (c_in c)"
proof -
  obtain dialled rr1 w1 where d: "DialTargetWithRetries E t m k ttl rr w = (dialled, rr1, w1)"
    by (metis prod_cases3)
  show thesis
  proof (cases dialled)
    case (Inl err)
    with assms d show ?thesis
      by (intro failed [of err "writeSocks5Reply socksReplyGeneral c"])
        (simp_all add: serve_target_def writeSocks5Reply_all socksReplyGeneral_def)
  next
    case (Inr tc)
    obtain i r where tc: "tc = (i, r)" by (cases tc)
    let ?c1 = "c\<lparr>c_out := c_out c @ reply_bytes 0\<rparr>"
    from assms d Inr tc obtain u d c' target' logs where
      t: "TunnelBidirectional ?c1 (targets i) = Some ((u, d), (c', target'), logs)"
      and e: "e = Proxied t r u d c' target'"
      by (auto simp: serve_target_def writeSocks5Reply_all socksReplySucceeded_def Let_def
          split: option.splits prod.splits)
    from tunnel_streams [OF t] e show ?thesis by (intro proxied [of r u d c' target' i]) simp_all
  qed
qed

lemma serve_request_cases:
  assumes "serve_request E targets c m k ttl rr w = Some (e, rr', w')" and "c_accepts c = None"
  obtains (rejected) line c' reply where "e = Rejected line c'" and "rr' = rr" and "w' = w"
      and "reply \<in> {[], reply_bytes 7, reply_bytes 8}" and "c_out c' = c_out c @ reply"
  | (served) rsv a p rest where "c_in c = request_bytes (rsv, a, p) @ rest" and "addr_ok a"
      and "serve_target E targets (c\<lparr>c_in := rest\<rparr>) (target_text a p) m k ttl rr w = Some (e, rr', w')"
proof -
  from assms(1) obtain res c1 where read: "readSocks5Target c = Some (res, c1)"
    by (auto simp: serve_request_def split: option.splits)
  show thesis
  proof (cases res)
    case (Inl err)
    from readSocks5Target_Inl [of c err c1] read Inl assms(2) obtain reply where
      reply: "reply \<in> {[], reply_bytes 7, reply_bytes 8}" "c_out c1 = c_out c @ reply" by auto
    then show ?thesis
      using rejected [OF _ _ _ reply] assms(1) read Inl by (auto simp: serve_request_def split: if_splits)
  next
    case (Inr t)
    from read [unfolded Inr read_target_parse parse_request_sound] obtain rsv a p rest where "c_in c = request_bytes (rsv, a, p) @ rest" "addr_ok a"
      "t = target_text a p" "c1 = c\<lparr>c_in := rest\<rparr>"
      by auto
    with assms(1) read Inr served show ?thesis by (simp add: serve_request_def)
  qed
qed

text \<open>The greeting: rejected, or the version, the methods and then the request.\<close>

lemma greeting_cases:
  assumes "HandleSocks5Connection E targets conn m k ttl rr w = Some (e, rr', w')"
    and "c_accepts conn = None"
  obtains (rejected) line c' where "e = Rejected line c'" and "rr' = rr" and "w' = w"
      and "c_out c' = c_out conn"
  | (greeted) methods rest where "c_in conn = [5, word_of_nat (length methods)] @ methods @ rest"
      and "serve_request E targets (conn\<lparr>c_in := rest, c_out := c_out conn @ [5, 0]\<rparr>) m k ttl rr w =
        Some (e, rr', w')"
proof -
  have rej: thesis if "\<exists>line. e = Rejected line c'" "rr' = rr" "w' = w" "c_out c' = c_out conn" for c'
    using that rejected by blast
  note handle = assms(1) [unfolded HandleSocks5Connection_def socks_consts]
  from handle obtain res1 c1 where r1: "ReadFull 2 conn = Some (res1, c1)" by (auto split: option.splits)
  show thesis
  proof (cases res1)
    case (Inl err)
    with handle r1 ReadFull_frame [OF r1] show ?thesis by (intro rej [of c1]) auto
  next
    case (Inr hello)
    from r1 [unfolded Inr ReadFull_take_bytes] obtain l1 where
      l1: "c_in conn = hello @ l1" "length hello = 2" "c1 = conn\<lparr>c_in := l1\<rparr>"
      by (auto dest: take_bytes_SomeD)
    then obtain v n where hello: "hello = [v, n]"
      by (metis (no_types, lifting) Suc_length_conv length_0_conv numeral_2_eq_2)
    show ?thesis
    proof (cases "v = 5 \<and> unat n \<noteq> 0")
      case False
      with handle r1 Inr hello ReadFull_frame [OF r1] show ?thesis
        by (intro rej [of c1]) (auto split: if_splits)
    next
      case True
      from handle r1 Inr hello True obtain res2 c2 where r2: "ReadFull (unat n) c1 = Some (res2, c2)"
        by (auto split: option.splits if_splits)
      show ?thesis
      proof (cases res2)
        case (Inl err)
        with handle r1 \<open>res1 = Inr hello\<close> hello True r2 ReadFull_frame [OF r1] ReadFull_frame [OF r2]
        show ?thesis by (intro rej [of c2]) auto
      next
        case (Inr methods)
        from r2 [unfolded Inr ReadFull_take_bytes] l1 obtain l2 where
          l2: "l1 = methods @ l2" "length methods = unat n" "c2 = conn\<lparr>c_in := l2\<rparr>"
          by (auto dest: take_bytes_SomeD)
        then have "Write [5, 0] c2 = (None, c2\<lparr>c_out := c_out conn @ [5, 0]\<rparr>)"
          using assms(2) by (simp add: Write_all)
        moreover have "n = word_of_nat (length methods)" using l2 by simp
        ultimately show ?thesis
          using handle r1 \<open>res1 = Inr hello\<close> hello True r2 Inr l1 l2 greeted [of methods l2] by simp
      qed
    qed
  qed
qed


section \<open>IPv6 targets\<close>

text \<open>
  The address that the parser hands to the SSH library is host, colon, port. The library, like
  \<open>net.Dial\<close>, documents that an IPv6 host must stand in brackets: it refuses an address with
  two colons or more and no bracket.
\<close>

definition colons :: "string \<Rightarrow> nat" where
  "colons s = length (filter (\<lambda>c. c = CHR '':'') s)"

definition dial_needs_brackets :: "env \<Rightarrow> bool" where
  "dial_needs_brackets E \<longleftrightarrow>
     (\<forall>n h a. 1 < colons a \<longrightarrow> CHR ''['' \<notin> set a \<longrightarrow> (\<exists>e. conn_dial E n h ''tcp'' a = Inl e))"

lemma dial_loop_refused:
  assumes "\<And>n h. \<exists>e. conn_dial E n h ''tcp'' t = Inl e"
  shows "\<exists>e rr' w'. dial_loop E t k ttl left ex prev rr w = (Inl e, rr', w')"
proof (induction left arbitrary: ex prev rr w)
  case (Suc left)
  have refused: "\<exists>e. conn_dial E n h ''tcp'' t = Inl e" for n h by (rule assms)
  show ?case
  proof (cases "GetForTarget E t (Some ex) rr w")
    case (fields sel rr1 w1)
    show ?thesis
    proof (cases sel)
      case (Inr r)
      show ?thesis
      proof (cases "Client (w_store w1 r)")
        case (Some h)
        obtain e where "conn_dial E (w_tick w1) h ''tcp'' t = Inl e" using refused by blast
        with fields Inr Some Suc.IH show ?thesis by (simp add: Let_def split: prod.split)
      qed (use fields Inr Suc.IH in \<open>simp add: Let_def split: prod.split\<close>)
    qed (use fields in simp)
  qed
qed simp

lemma hex_string_chars: "c \<in> set (hex_string n) \<Longrightarrow> \<exists>d < 16. c = hex_digit d"
proof (induction n rule: hex_string.induct)
  case (1 n)
  have "\<exists>d < 16. hex_digit (n mod 16) = hex_digit d" by (rule exI [of _ "n mod 16"]) simp
  with 1 show ?case by (subst (asm) (2) hex_string.simps) (auto split: if_splits)
qed

lemma hex_digit_not: "d < 16 \<Longrightarrow> hex_digit d \<noteq> CHR '':'' \<and> hex_digit d \<noteq> CHR ''[''"
  by (auto simp: hex_digit_def dest!: arg_cong [where f = "of_char :: char \<Rightarrow> nat"])

lemma colons_simps [simp]:
  "colons [] = 0" "colons (c # s) = (if c = CHR '':'' then 1 else 0) + colons s"
  "colons (s @ t) = colons s + colons t"
  by (simp_all add: colons_def)

lemma colons_Join: "length fs - 1 \<le> colons (Join '':'' fs)"
proof (induction fs)
  case (Cons f fs)
  then show ?case by (cases fs) auto
qed simp

lemma Join_chars: "c \<in> set (Join sep fs) \<Longrightarrow> c \<in> set sep \<or> (\<exists>f \<in> set fs. c \<in> set f)"
proof (induction fs)
  case (Cons f fs)
  then show ?case by (cases fs) auto
qed simp

lemma colon_hex_colons: "3 \<le> length gs \<Longrightarrow> 1 < colons (colon_hex gs)"
  using colons_Join [of "map hex_string gs"] by (auto simp: colon_hex_def split: option.split)

lemma colon_hex_no_bracket: "CHR ''['' \<notin> set (colon_hex gs)"
  by (auto simp: colon_hex_def split: option.splits prod.splits dest!: Join_chars hex_string_chars)
    (use hex_digit_not in metis)+

lemma length_groups: "length (groups bs) = length bs div 2"
  by (induction bs rule: groups.induct) auto

text \<open>C27: No IPv6 target can be reached: the target address is built without brackets, so with an
  SSH library that requires them a request for an IPv6 address that is not a mapped IPv4 address
  is never proxied, whatever the pool. The client gets a general failure.\<close>

theorem socks5_ipv6_unreachable:
  assumes "dial_needs_brackets E" and "length bs = 16" and "\<not> v4_mapped bs"
    and "c_accepts conn = None" and "methods \<noteq> []" and "length methods < 256"
    and "c_in conn = [5, word_of_nat (length methods)] @ methods @ request_bytes (r, IPv6 bs, p) @ rest"
  shows "\<exists>err c' rr' w'.
    HandleSocks5Connection E targets conn m k ttl rr w =
      Some (DialFailed (target_text (IPv6 bs) p) err c', rr', w') \<and>
    c_out c' = c_out conn @ [5, 0] @ reply_bytes 1"
proof -
  have shown: "IP_String bs = colon_hex (groups bs)" using assms(2,3) by (simp add: IP_String_def)
  have "1 < colons (target_text (IPv6 bs) p)"
    using colon_hex_colons [of "groups bs"] assms(2) by (simp add: target_text_def shown length_groups)
  moreover have "CHR ''['' \<notin> set (target_text (IPv6 bs) p)"
    using colon_hex_no_bracket [of "groups bs"] Itoa_chars [of "CHR ''[''" "uint p"]
    by (auto simp: target_text_def shown char_digit_def)
  ultimately have "\<exists>e. conn_dial E n h ''tcp'' (target_text (IPv6 bs) p) = Inl e" for n h
    using assms(1) unfolding dial_needs_brackets_def by blast
  from dial_loop_refused [OF this] obtain err rr' w' where
    "DialTargetWithRetries E (target_text (IPv6 bs) p) m k ttl rr w = (Inl err, rr', w')"
    unfolding DialTargetWithRetries_loop by metis
  moreover have "addr_ok (IPv6 bs)" using assms(2) by simp
  ultimately show ?thesis
    using assms(4) by (simp add: handshake_served [OF assms(4-6) _ assms(7)] serve_target_def
        writeSocks5Reply_all socksReplyGeneral_def)
qed

definition picky_env :: env where
  "picky_env = (sample_env [''a:22''])
     \<lparr>conn_dial := \<lambda>n h nw a. if 1 < colons a \<and> CHR ''['' \<notin> set a then Inl (Sentinel ''address'') else Inr n\<rparr>"

theorem socks5_ipv6_unreachable_witness:
  "\<exists>err c' rr' w'.
     HandleSocks5Connection picky_env (\<lambda>_. sample_stream [])
       (sample_stream ([5, 1, 0] @ request_bytes (0, IPv6 (replicate 15 0 @ [1]), 80) @ []))
       0 1 0 (sample_pool ''failover'' 1 abc) (sample_world abc no_tracker) =
       Some (DialFailed ''::1:80'' err c', rr', w') \<and> c_out c' = [5, 0] @ reply_bytes 1"
proof -
  have ok: "dial_needs_brackets picky_env"
    by (simp add: dial_needs_brackets_def picky_env_def)
  have shown: "target_text (IPv6 (replicate 15 0 @ [1])) 80 = ''::1:80''"
    by code_simp
  have bs: "length (replicate 15 0 @ [1 :: byte]) = 16" "\<not> v4_mapped (replicate 15 0 @ [1])"
    by code_simp+
  show ?thesis
    using socks5_ipv6_unreachable [where bs = "replicate 15 0 @ [1]" and methods = "[0]" and r = 0 and p = 80
        and rest = "[]" and targets = "\<lambda>_. sample_stream []" and m = 0 and k = 1 and ttl = 0
        and rr = "sample_pool ''failover'' 1 abc" and w = "sample_world abc no_tracker"
        and conn = "sample_stream ([5, 1, 0] @ request_bytes (0, IPv6 (replicate 15 0 @ [1]), 80) @ [])", OF ok bs]
    unfolding shown by (simp add: sample_stream_def)
qed


end
