(* ===== verification/ServersFile.thy ===== *)
theory ServersFile
  imports SshServer
begin

text \<open>
  The list of upstreams (\<open>internal/config/servers.go\<close>): reading the file line by line and
  parsing a line. Opening the file is the parameter \<open>open_file\<close>, which answers an error or the
  text that can be read together with the read error that ends it, if any.
\<close>

section \<open>Lines\<close>

text \<open>
  \<open>bufio.Scanner\<close> with its default split function: lines without their newline and without a
  carriage return before it, up to the first line of 64 kB or more, which is an error.
\<close>

definition dropCR :: "string \<Rightarrow> string" where
  "dropCR l = (if l \<noteq> [] \<and> last l = CHR 0x0D then butlast l else l)"

definition ErrTooLong :: go_error where
  "ErrTooLong = Sentinel ''bufio.Scanner: token too long''"

definition scan_lines :: "string \<Rightarrow> go_error option \<Rightarrow> string list \<times> go_error option" where
  "scan_lines s read_err =
     (let segs = Split (CHR 0x0A) s;
          segs1 = (if last segs = [] then butlast segs else segs);
          fit = takeWhile (\<lambda>l. length l < 65536) segs1
      in (map dropCR fit, if length fit < length segs1 then Some ErrTooLong else read_err))"

section \<open>A line\<close>

definition defaultSSHKeyPath :: "env \<Rightarrow> tick \<Rightarrow> (go_error + string) \<times> tick" where
  "defaultSSHKeyPath E n =
     (case current_home E n of
        Inl e \<Rightarrow> (Inl (Errorf (''failed to get current user: '' @ Error e) (Some e)), Suc n)
      | Inr home \<Rightarrow> (Inr (path_Join [home, ''.ssh'', ''id_rsa'']), Suc n))"

text \<open>The choice of the authentication method for a server whose other fields are set.\<close>

definition choose_auth ::
    "env \<Rightarrow> int \<Rightarrow> string \<Rightarrow> bool \<Rightarrow> SSHServer \<Rightarrow> tick \<Rightarrow> (go_error + SSHServer) \<times> tick" where
  "choose_auth E lineNum proxyCommand forceCloudflared server n =
     (let useProxyCommand = forceCloudflared \<or> proxyCommand \<noteq> [] in
      if useProxyCommand then
        (let server1 = server\<lparr>s_AuthMethod := AuthMethodProxyCommand, s_ProxyCommand := proxyCommand\<rparr> in
         if s_KeyPath server1 = [] \<and> s_Password server1 = [] then
           (case defaultSSHKeyPath E n of
              (Inl e, n1) \<Rightarrow> (Inl e, n1)
            | (Inr defaultKeyPath, n1) \<Rightarrow>
                (Inr (if stat_ok E n1 defaultKeyPath then server1\<lparr>s_KeyPath := defaultKeyPath\<rparr> else server1),
                 Suc n1))
         else (Inr server1, n))
      else if s_KeyPath server \<noteq> [] then (Inr (server\<lparr>s_AuthMethod := AuthMethodKey\<rparr>), n)
      else if s_Password server \<noteq> [] then (Inr (server\<lparr>s_AuthMethod := AuthMethodPassword\<rparr>), n)
      else
        (case defaultSSHKeyPath E n of
           (Inl e, n1) \<Rightarrow> (Inl e, n1)
         | (Inr defaultKeyPath, n1) \<Rightarrow>
             if stat_ok E n1 defaultKeyPath then
               (Inr (server\<lparr>s_AuthMethod := AuthMethodKey, s_KeyPath := defaultKeyPath\<rparr>), Suc n1)
             else
               (Inl (err_new (''no auth method specified and default key '' @ defaultKeyPath @
                      '' not found for server '' @ s_Host server @ '' at line '' @ Itoa lineNum)), Suc n1)))"

definition parseServerLine ::
    "env \<Rightarrow> string \<Rightarrow> int \<Rightarrow> string \<Rightarrow> string \<Rightarrow> string \<Rightarrow> bool \<Rightarrow> tick \<Rightarrow> (go_error + SSHServer) \<times> tick" where
  "parseServerLine E line lineNum username keyFile proxyCommand forceCloudflared n =
     (let fields = Split (CHR '':'') line in
      if length fields < 1 \<or> 3 < length fields then
        (Inl (err_new (''invalid line '' @ Itoa lineNum @ '': '' @ line @
               '' (format: host, host:port, or host:port:password)'')), n)
      else if fields ! 0 = [] then
        (Inl (err_new (''invalid line '' @ Itoa lineNum @ '': empty host'')), n)
      else
        (case (if 2 \<le> length fields \<and> fields ! 1 \<noteq> [] then Atoi (fields ! 1) else Some 22) of
           None \<Rightarrow>
             (Inl (err_new (''invalid port at line '' @ Itoa lineNum @ '': '' @ fields ! 1)), n)
         | Some port \<Rightarrow>
             (let password = (if length fields = 3 then fields ! 2 else []) in
              choose_auth E lineNum proxyCommand forceCloudflared
                \<lparr>s_Host = fields ! 0, s_Port = port, s_Username = username,
                 s_AuthMethod = AuthMethodKey, s_KeyPath = keyFile,
                 s_Password = (if password \<noteq> [] \<and> password \<noteq> ''-'' then password else []),
                 s_ProxyCommand = []\<rparr> n)))"

section \<open>The file\<close>

fun parse_lines ::
    "env \<Rightarrow> string \<Rightarrow> string \<Rightarrow> string \<Rightarrow> bool \<Rightarrow> int \<Rightarrow> string list \<Rightarrow> SSHServer list \<Rightarrow> tick \<Rightarrow>
     (go_error + SSHServer list) \<times> tick" where
  "parse_lines E username keyFile proxyCommand force lineNum [] servers n = (Inr servers, n)"
| "parse_lines E username keyFile proxyCommand force lineNum (l # ls) servers n =
     (let line = TrimSpace l in
      if line = [] \<or> HasPrefix line ''#'' then
        parse_lines E username keyFile proxyCommand force (lineNum + 1) ls servers n
      else
        (case parseServerLine E line lineNum username keyFile proxyCommand force n of
           (Inl err, n1) \<Rightarrow> (Inl err, n1)
         | (Inr server, n1) \<Rightarrow>
             parse_lines E username keyFile proxyCommand force (lineNum + 1) ls (servers @ [server]) n1))"

definition ParseServersFile ::
    "env \<Rightarrow> (string \<Rightarrow> go_error + (string \<times> go_error option)) \<Rightarrow>
     string \<Rightarrow> string \<Rightarrow> string \<Rightarrow> string \<Rightarrow> bool \<Rightarrow> tick \<Rightarrow> (go_error + SSHServer list) \<times> tick" where
  "ParseServersFile E open_file path username keyFile proxyCommand forceCloudflared n =
     (case open_file path of
        Inl err \<Rightarrow> (Inl (Errorf (''failed to open servers file: '' @ Error err) (Some err)), n)
      | Inr (data, read_err) \<Rightarrow>
          if forceCloudflared \<and> proxyCommand = [] then
            (Inl (err_new ''-cf/-cloudflared mode requires PROXY_COMMAND or -proxy-command''), n)
          else
            (case scan_lines data read_err of
               (ls, scan_err) \<Rightarrow>
                 (case parse_lines E username keyFile proxyCommand forceCloudflared 1 ls [] n of
                    (Inl err, n1) \<Rightarrow> (Inl err, n1)
                  | (Inr servers, n1) \<Rightarrow>
                      (case scan_err of
                         Some err \<Rightarrow>
                           (Inl (Errorf (''error reading servers file: '' @ Error err) (Some err)), n1)
                       | None \<Rightarrow> (Inr servers, n1)))))"

section \<open>What a parsed server satisfies\<close>

text \<open>
  Its host and password could be told apart in the line, and its authentication method comes
  with what the method needs.
\<close>

definition server_usable :: "string \<Rightarrow> bool \<Rightarrow> SSHServer \<Rightarrow> bool" where
  "server_usable proxyCommand force s \<longleftrightarrow>
     s_Host s \<noteq> [] \<and> CHR '':'' \<notin> set (s_Host s) \<and> in_int64 (s_Port s) \<and>
     CHR '':'' \<notin> set (s_Password s) \<and> s_Password s \<noteq> ''-'' \<and>
     (case s_AuthMethod s of
        AuthMethodKey \<Rightarrow> s_KeyPath s \<noteq> [] \<and> \<not> force \<and> proxyCommand = []
      | AuthMethodPassword \<Rightarrow> s_Password s \<noteq> [] \<and> s_KeyPath s = [] \<and> \<not> force \<and> proxyCommand = []
      | AuthMethodProxyCommand \<Rightarrow> s_ProxyCommand s = proxyCommand \<and> (force \<or> proxyCommand \<noteq> [])
      | AuthMethodOther k \<Rightarrow> False)"

lemma Clean_nonempty: "Clean p \<noteq> []"
  by (simp add: Clean_def Let_def)

lemma defaultSSHKeyPath_nonempty: "defaultSSHKeyPath E n = (Inr path, n1) \<Longrightarrow> path \<noteq> []"
  by (auto simp: defaultSSHKeyPath_def path_Join_def Clean_nonempty split: sum.splits if_splits)

lemma choose_auth_usable:
  assumes "choose_auth E k pc force s n = (Inr s', n1)"
    and "s_Host s \<noteq> []" and "CHR '':'' \<notin> set (s_Host s)" and "in_int64 (s_Port s)"
    and "CHR '':'' \<notin> set (s_Password s)" and "s_Password s \<noteq> ''-''"
  shows "server_usable pc force s' \<and> s_Username s' = s_Username s"
  using assms
  by (auto simp: choose_auth_def server_usable_def Let_def split: if_splits prod.splits sum.splits
      dest: defaultSSHKeyPath_nonempty)

lemma parseServerLine_usable:
  assumes "parseServerLine E line k user key pc force n = (Inr s, n1)"
  shows "server_usable pc force s \<and> s_Username s = user"
proof -
  let ?f = "Split (CHR '':'') line"
  have field: "CHR '':'' \<notin> set (?f ! i)" if "i < length ?f" for i
    using Split_fields that by (metis nth_mem)
  have "in_int64 22" by (simp add: in_int64_def)
  with assms field [of 0] field [of 2] show ?thesis
    by (auto simp: parseServerLine_def Let_def split: if_splits option.splits
        dest!: choose_auth_usable Atoi_range)
qed

lemma parse_lines_usable:
  assumes "parse_lines E user key pc force k ls acc n = (Inr servers, n1)"
    and "\<forall>s \<in> set acc. server_usable pc force s \<and> s_Username s = user"
  shows "\<forall>s \<in> set servers. server_usable pc force s \<and> s_Username s = user"
  using assms
proof (induction ls arbitrary: k acc n)
  case (Cons l ls)
  show ?case
  proof (cases "TrimSpace l = [] \<or> HasPrefix (TrimSpace l) ''#''")
    case True
    with Cons show ?thesis by (auto simp: Let_def)
  next
    case False
    with Cons.prems obtain s n2 where s: "parseServerLine E (TrimSpace l) k user key pc force n = (Inr s, n2)"
      and rest: "parse_lines E user key pc force (k + 1) ls (acc @ [s]) n2 = (Inr servers, n1)"
      by (auto simp: Let_def split: prod.splits sum.splits)
    from Cons.prems(2) parseServerLine_usable [OF s] show ?thesis by (intro Cons.IH [OF rest]) auto
  qed
qed simp

section \<open>Writing a file that is read back\<close>

datatype file_line = Note string | Upstream string int string

fun render_line :: "file_line \<Rightarrow> string" where
  "render_line (Note c) = c"
| "render_line (Upstream h p pw) = h @ '':'' @ Itoa p @ (if pw = [] then [] else '':'' @ pw)"

definition file_text :: "file_line list \<Rightarrow> string" where
  "file_text ls = concat (map (\<lambda>l. render_line l @ [CHR 0x0A]) ls)"

text \<open>
  Every line is a single line of less than 64 kB. A note is blank or a comment; an upstream has
  a host and a password without colons and no white space around it.
\<close>

definition line_shape :: "string \<Rightarrow> bool" where
  "line_shape l \<longleftrightarrow> CHR 0x0A \<notin> set l \<and> length l < 65536 \<and> dropCR l = l"

fun line_ok :: "file_line \<Rightarrow> bool" where
  "line_ok (Note c) \<longleftrightarrow> line_shape c \<and> (TrimSpace c = [] \<or> HasPrefix (TrimSpace c) ''#'')"
| "line_ok (Upstream h p pw) \<longleftrightarrow>
     line_shape (render_line (Upstream h p pw)) \<and>
     TrimSpace (render_line (Upstream h p pw)) = render_line (Upstream h p pw) \<and>
     \<not> HasPrefix h ''#'' \<and> h \<noteq> [] \<and> CHR '':'' \<notin> set h \<and> in_int64 p \<and>
     CHR '':'' \<notin> set pw \<and> pw \<noteq> ''-''"

fun upstreams :: "file_line list \<Rightarrow> (string \<times> int \<times> string) list" where
  "upstreams [] = []"
| "upstreams (Note c # ls) = upstreams ls"
| "upstreams (Upstream h p pw # ls) = (h, p, pw) # upstreams ls"

definition server_for :: "string \<Rightarrow> string \<Rightarrow> string \<Rightarrow> bool \<Rightarrow> string \<times> int \<times> string \<Rightarrow> SSHServer" where
  "server_for user key pc force q = (case q of (h, p, pw) \<Rightarrow>
     \<lparr>s_Host = h, s_Port = p, s_Username = user,
      s_AuthMethod = (if force \<or> pc \<noteq> [] then AuthMethodProxyCommand
                      else if key \<noteq> [] then AuthMethodKey else AuthMethodPassword),
      s_KeyPath = key, s_Password = pw,
      s_ProxyCommand = (if force \<or> pc \<noteq> [] then pc else [])\<rparr>)"

lemma Itoa_nonempty [simp]: "Itoa p \<noteq> []"
  by (simp add: Itoa_def)

lemma parse_upstream:
  assumes "line_ok (Upstream h p pw)" and "key \<noteq> [] \<or> pw \<noteq> []"
  shows "parseServerLine E (render_line (Upstream h p pw)) k user key pc force n =
    (Inr (server_for user key pc force (h, p, pw)), n)"
proof -
  have "Split (CHR '':'') (render_line (Upstream h p pw)) = (if pw = [] then [h, Itoa p] else [h, Itoa p, pw])"
    using assms(1) by (auto simp: Split_append Split_no_sep)
  with assms show ?thesis
    by (auto simp: parseServerLine_def choose_auth_def server_for_def Atoi_Itoa)
qed

lemma Split_lines:
  "\<forall>l \<in> set ls. CHR 0x0A \<notin> set (render_line l) \<Longrightarrow>
     Split (CHR 0x0A) (file_text ls) = map render_line ls @ [[]]"
  by (induction ls) (auto simp: file_text_def Split_append)

lemma line_ok_shape: "line_ok l \<Longrightarrow> line_shape (render_line l)"
  by (cases l) auto

lemma scan_file_text:
  assumes "\<forall>l \<in> set ls. line_ok l"
  shows "scan_lines (file_text ls) err = (map render_line ls, err)"
proof -
  have shape: "line_shape (render_line l)" if "l \<in> set ls" for l
    using assms that line_ok_shape by blast
  then have "takeWhile (\<lambda>l. length l < 65536) (map render_line ls) = map render_line ls"
    by (auto simp: line_shape_def)
  moreover have "map dropCR (map render_line ls) = map render_line ls"
    using shape by (auto simp: line_shape_def)
  moreover have "Split (CHR 0x0A) (file_text ls) = map render_line ls @ [[]]"
    using shape by (intro Split_lines) (auto simp: line_shape_def)
  ultimately show ?thesis by (simp add: scan_lines_def Let_def del: takeWhile_eq_all_conv)
qed

lemma parse_file_lines:
  assumes "\<forall>l \<in> set ls. line_ok l" and "\<forall>(h, p, pw) \<in> set (upstreams ls). key \<noteq> [] \<or> pw \<noteq> []"
  shows "parse_lines E user key pc force k (map render_line ls) acc n =
    (Inr (acc @ map (server_for user key pc force) (upstreams ls)), n)"
  using assms
proof (induction ls arbitrary: k acc)
  case (Cons l ls)
  show ?case
  proof (cases l)
    case (Note c)
    with Cons show ?thesis by (auto simp: Let_def)
  next
    case (Upstream h p pw)
    let ?l = "render_line (Upstream h p pw)"
    from Cons.prems Upstream have ok: "line_ok (Upstream h p pw)" and auth: "key \<noteq> [] \<or> pw \<noteq> []" by auto
    from ok have "\<not> (TrimSpace ?l = [] \<or> HasPrefix (TrimSpace ?l) ''#'')" and "TrimSpace ?l = ?l"
      by (cases h; auto)+
    with Cons parse_upstream [OF ok auth] Upstream show ?thesis
      by (simp add: Let_def del: line_ok.simps render_line.simps)
  qed
qed simp

section \<open>Properties\<close>


text \<open>C28: A file is read as it was written: blank lines and comments are skipped, and every upstream
  line gives one server, in the order of the file, with the host, the port and the password of
  the line. Any port that fits an \<open>int\<close> is taken, also one that no TCP port can have.\<close>

theorem servers_file_roundtrip:
  assumes "F path = Inr (file_text ls, None)" and "\<forall>l \<in> set ls. line_ok l"
    and "\<forall>(h, p, pw) \<in> set (upstreams ls). key \<noteq> [] \<or> pw \<noteq> []" and "force \<longrightarrow> pc \<noteq> []"
  shows "ParseServersFile E F path user key pc force n =
    (Inr (map (server_for user key pc force) (upstreams ls)), n)"
  using assms(1,4) scan_file_text [OF assms(2)] parse_file_lines [OF assms(2,3)]
  by (auto simp: ParseServersFile_def)

definition sample_lines :: "file_line list" where
  "sample_lines = [Note ''# upstreams'', Upstream ''a'' 22 ''x'', Note [], Upstream ''b'' 99999 ''y'']"

lemma Itoa_99999: "Itoa 99999 = ''99999''"
  by (simp add: Itoa_simps) code_simp

lemma sample_lines_ok: "\<forall>l \<in> set sample_lines. line_ok l"
proof -
  have "TrimSpace ''# upstreams'' = ''# upstreams''" "TrimSpace ''a:22:x'' = ''a:22:x''"
    "TrimSpace [] = []" "TrimSpace ''b:99999:y'' = ''b:99999:y''"
    by code_simp+
  then show ?thesis
    by (simp add: sample_lines_def line_shape_def dropCR_def Itoa_99999 Itoa_22 in_int64_def)
qed

theorem servers_file_roundtrip_witness:
  "map Addr (case fst (ParseServersFile (sample_env []) (\<lambda>_. Inr (file_text sample_lines, None))
     ''servers.txt'' ''root'' [] [] False 0) of Inr ss \<Rightarrow> ss) = [''a:22'', ''b:99999'']"
proof -
  have "map (server_for ''root'' [] [] False) (upstreams sample_lines) =
      [server_for ''root'' [] [] False (''a'', 22, ''x''), server_for ''root'' [] [] False (''b'', 99999, ''y'')]"
    by (simp add: sample_lines_def)
  moreover have "Addr (server_for ''root'' [] [] False (''a'', 22, ''x'')) = ''a:22''"
    "Addr (server_for ''root'' [] [] False (''b'', 99999, ''y'')) = ''b:99999''"
    by (simp_all add: Addr_def server_for_def Itoa_99999 Itoa_22)
  moreover have "\<forall>(h, p, pw) \<in> set (upstreams sample_lines). [] \<noteq> ([] :: string) \<or> pw \<noteq> []"
    by (simp add: sample_lines_def)
  ultimately show ?thesis
    using servers_file_roundtrip [where F = "\<lambda>_. Inr (file_text sample_lines, None)" and path = "''servers.txt''"
        and key = "[]" and pc = "[]" and force = False and user = "''root''" and E = "sample_env []" and n = 0,
        OF refl sample_lines_ok]
    by simp
qed


end
