(* ===== verification/Flags.thy ===== *)
theory Flags
  imports GoStrings
begin

text \<open>
  The part of Go's \<open>flag\<close> package that \<open>ParseConfig\<close> uses: variables of four kinds, and the loop
  that takes flags off the front of the argument list. An error ends the process with code 2,
  \<open>-h\<close> and \<open>-help\<close> with code 0. The text form of durations, whose fractions Go computes in
  floating point, is the parameter \<open>duration_text\<close>.
\<close>

section \<open>Values\<close>

definition ParseBool :: "string \<Rightarrow> bool option" where
  "ParseBool s =
     (if s \<in> {''1'', ''t'', ''T'', ''true'', ''TRUE'', ''True''} then Some True
      else if s \<in> {''0'', ''f'', ''F'', ''false'', ''FALSE'', ''False''} then Some False
      else None)"

text \<open>\<open>strconv.ParseInt\<close> with base 0: a base prefix, and underscores between digits.\<close>

definition digit_value :: "char \<Rightarrow> nat option" where
  "digit_value c =
     (let n = (of_char (ascii_lower c) :: nat) in
      if 48 \<le> n \<and> n \<le> 57 then Some (n - 48)
      else if 97 \<le> n \<and> n \<le> 122 then Some (n - 87) else None)"

fun base_val :: "nat \<Rightarrow> nat \<Rightarrow> string \<Rightarrow> nat option" where
  "base_val b acc [] = Some acc"
| "base_val b acc (c # cs) =
     (if c = CHR ''_'' then base_val b acc cs
      else (case digit_value c of
              None \<Rightarrow> None
            | Some d \<Rightarrow> if d < b then base_val b (b * acc + d) cs else None))"

definition base_prefix :: "string \<Rightarrow> (nat \<times> string) option" where
  "base_prefix s =
     (case s of
        z # c # cs \<Rightarrow>
          if z \<noteq> CHR ''0'' then None
          else if ascii_lower c = CHR ''b'' then Some (2, cs)
          else if ascii_lower c = CHR ''o'' then Some (8, cs)
          else if ascii_lower c = CHR ''x'' then Some (16, cs)
          else None
      | _ \<Rightarrow> None)"

datatype saw = SawStart | SawDigit | SawUnderscore | SawOther

fun underscores_ok :: "bool \<Rightarrow> saw \<Rightarrow> string \<Rightarrow> bool" where
  "underscores_ok hex saw [] \<longleftrightarrow> saw \<noteq> SawUnderscore"
| "underscores_ok hex saw (c # cs) \<longleftrightarrow>
     (if char_digit c \<noteq> None \<or> hex \<and> ascii_lower c \<in> set ''abcdef'' then underscores_ok hex SawDigit cs
      else if c = CHR ''_'' then saw = SawDigit \<and> underscores_ok hex SawUnderscore cs
      else saw \<noteq> SawUnderscore \<and> underscores_ok hex SawOther cs)"

definition underscoreOK :: "string \<Rightarrow> bool" where
  "underscoreOK s =
     (case base_prefix s of
        Some (b, cs) \<Rightarrow> underscores_ok (b = 16) SawDigit cs
      | None \<Rightarrow> underscores_ok False SawStart s)"

definition ParseUint0 :: "string \<Rightarrow> nat option" where
  "ParseUint0 s =
     (if s = [] then None
      else if CHR ''_'' \<in> set s \<and> \<not> underscoreOK s then None
      else (case (if 3 \<le> length s then base_prefix s else None) of
              Some (b, cs) \<Rightarrow> base_val b 0 cs
            | None \<Rightarrow> if hd s = CHR ''0'' then base_val 8 0 (tl s) else base_val 10 0 s))"

definition ParseInt0 :: "string \<Rightarrow> int option" where
  "ParseInt0 s =
     (let neg = (s \<noteq> [] \<and> hd s = CHR ''-'');
          body = (if s \<noteq> [] \<and> (hd s = CHR ''-'' \<or> hd s = CHR ''+'') then tl s else s)
      in case ParseUint0 body of
           None \<Rightarrow> None
         | Some n \<Rightarrow>
             (let k = (if neg then - int n else int n) in if in_int64 k then Some k else None))"

section \<open>The loop\<close>

text \<open>A flag stores its value with a function that updates the variables \<open>'s\<close>.\<close>

datatype 's flag_var =
    StringVar "string \<Rightarrow> 's \<Rightarrow> 's"
  | BoolVar "bool \<Rightarrow> 's \<Rightarrow> 's"
  | IntVar "int \<Rightarrow> 's \<Rightarrow> 's"
  | DurationVar "int \<Rightarrow> 's \<Rightarrow> 's"

definition store_value :: "(string \<Rightarrow> int option) \<Rightarrow> 's flag_var \<Rightarrow> string \<Rightarrow> ('s \<Rightarrow> 's) option" where
  "store_value duration_text var t =
     (case var of
        StringVar put \<Rightarrow> Some (put t)
      | BoolVar put \<Rightarrow> map_option put (ParseBool t)
      | IntVar put \<Rightarrow> map_option put (ParseInt0 t)
      | DurationVar put \<Rightarrow> map_option put (duration_text t))"

text \<open>The update that a flag makes and the arguments left: only other flags than booleans take
  the next argument as their value.\<close>

definition flag_value ::
    "(string \<Rightarrow> int option) \<Rightarrow> 's flag_var \<Rightarrow> string option \<Rightarrow> string list \<Rightarrow> (('s \<Rightarrow> 's) \<times> string list) option" where
  "flag_value D var val rest =
     (case (var, val) of
        (_, Some t) \<Rightarrow> map_option (\<lambda>f. (f, rest)) (store_value D var t)
      | (BoolVar put, None) \<Rightarrow> Some (put True, rest)
      | (_, None) \<Rightarrow>
          (case rest of
             [] \<Rightarrow> None
           | t # rest1 \<Rightarrow> map_option (\<lambda>f. (f, rest1)) (store_value D var t)))"

definition split_flag :: "string \<Rightarrow> string \<times> string option" where
  "split_flag name =
     (takeWhile (\<lambda>c. c \<noteq> CHR ''='') name,
      if CHR ''='' \<in> set name then Some (tl (dropWhile (\<lambda>c. c \<noteq> CHR ''='') name)) else None)"

lemma flag_value_shorter: "flag_value D var val rest = Some (f, rest1) \<Longrightarrow> length rest1 \<le> length rest"
  by (auto simp: flag_value_def split: flag_var.splits option.splits list.splits)

function parse_flags ::
    "(string \<Rightarrow> int option) \<Rightarrow> (string \<times> 's flag_var) list \<Rightarrow> string list \<Rightarrow> 's \<Rightarrow> int + ('s \<times> string list)" where
  "parse_flags D formal args v =
     (case args of
        [] \<Rightarrow> Inr (v, [])
      | s # rest \<Rightarrow>
          if length s < 2 \<or> hd s \<noteq> CHR ''-'' then Inr (v, args)
          else if s = ''--'' then Inr (v, rest)
          else
            (let name = (if s ! 1 = CHR ''-'' then drop 2 s else drop 1 s) in
             if name = [] \<or> hd name = CHR ''-'' \<or> hd name = CHR ''='' then Inl 2
             else
               (case map_of formal (fst (split_flag name)) of
                  None \<Rightarrow> Inl (if fst (split_flag name) \<in> {''help'', ''h''} then 0 else 2)
                | Some var \<Rightarrow>
                    (case flag_value D var (snd (split_flag name)) rest of
                       None \<Rightarrow> Inl 2
                     | Some (f, rest1) \<Rightarrow> parse_flags D formal rest1 (f v)))))"
  by pat_completeness auto
termination
  by (relation "measure (\<lambda>(D, formal, args, v). length args)") (auto dest!: flag_value_shorter)

declare parse_flags.simps [simp del]

section \<open>Arguments added at the end\<close>

text \<open>
  What is added behind the arguments is parsed when the flags reach to the end, and is left
  over when they stopped before it.
\<close>

lemma flag_value_append:
  "flag_value D var val rest = Some (f, rest1) \<Longrightarrow>
     flag_value D var val (rest @ more) = Some (f, rest1 @ more)"
  by (auto simp: flag_value_def split: flag_var.splits option.splits list.splits)

lemma flag_value_suffix:
  "flag_value D var val rest = Some (f, rest1) \<Longrightarrow> set rest1 \<subseteq> set rest"
  by (auto simp: flag_value_def split: flag_var.splits option.splits list.splits)

lemma parse_flags_append:
  assumes "parse_flags D formal args v = Inr (v1, [])" and "''--'' \<notin> set args"
  shows "parse_flags D formal (args @ more) v = parse_flags D formal more v1"
  using assms
proof (induction D formal args v rule: parse_flags.induct)
  case (1 D formal args v)
  show ?case
  proof (cases args)
    case Nil
    with 1(2) show ?thesis by (simp add: parse_flags.simps [of D formal "[]"])
  next
    case (Cons s rest)
    let ?name = "if s ! 1 = CHR ''-'' then drop 2 s else drop 1 s"
    from 1(2,3) Cons obtain var f rest1 where step: "\<not> (length s < 2 \<or> hd s \<noteq> CHR ''-'')" "s \<noteq> ''--''"
      "\<not> (?name = [] \<or> hd ?name = CHR ''-'' \<or> hd ?name = CHR ''='')"
      "map_of formal (fst (split_flag ?name)) = Some var"
      "flag_value D var (snd (split_flag ?name)) rest = Some (f, rest1)"
      "parse_flags D formal rest1 (f v) = Inr (v1, [])"
      by (subst (asm) parse_flags.simps) (auto simp: Let_def split: if_splits option.splits)
    have "''--'' \<notin> set rest1" using flag_value_suffix [OF step(5)] 1(3) Cons by auto
    with 1(1) [OF Cons step(1,2) refl step(3,4,5) refl step(6)]
    have "parse_flags D formal (rest1 @ more) (f v) = parse_flags D formal more v1" by blast
    then show ?thesis
      using Cons step flag_value_append [OF step(5), of more]
      by (subst parse_flags.simps) (simp add: Let_def)
  qed
qed

lemma parse_flags_stopped:
  assumes "parse_flags D formal args v = Inr (v1, p # ps)"
  shows "parse_flags D formal (args @ more) v = Inr (v1, p # ps @ more)"
  using assms
proof (induction D formal args v rule: parse_flags.induct)
  case (1 D formal args v)
  show ?case
  proof (cases args)
    case Nil
    with 1(2) show ?thesis by (simp add: parse_flags.simps [of D formal "[]"])
  next
    case (Cons s rest)
    let ?name = "if s ! 1 = CHR ''-'' then drop 2 s else drop 1 s"
    show ?thesis
    proof (cases "length s < 2 \<or> hd s \<noteq> CHR ''-'' \<or> s = ''--''")
      case True
      with 1(2) Cons show ?thesis by (auto simp: parse_flags.simps split: if_splits)
    next
      case False
      with 1(2) Cons obtain var f rest1 where step:
        "\<not> (?name = [] \<or> hd ?name = CHR ''-'' \<or> hd ?name = CHR ''='')"
        "map_of formal (fst (split_flag ?name)) = Some var"
        "flag_value D var (snd (split_flag ?name)) rest = Some (f, rest1)"
        "parse_flags D formal rest1 (f v) = Inr (v1, p # ps)"
        by (subst (asm) parse_flags.simps) (auto simp: Let_def split: if_splits option.splits)
      from False have s: "\<not> (length s < 2 \<or> hd s \<noteq> CHR ''-'')" "s \<noteq> ''--''" by auto
      from 1(1) [OF Cons s refl step(1,2,3) refl step(4)]
      have "parse_flags D formal (rest1 @ more) (f v) = Inr (v1, p # ps @ more)" .
      then show ?thesis
        using Cons s step flag_value_append [OF step(3), of more]
        by (subst parse_flags.simps) (simp add: Let_def)
    qed
  qed
qed

text \<open>What the flags do does not depend on the defaults.\<close>

lemma parse_flags_update:
  assumes "parse_flags D formal args v = Inr (v1, rest)"
  shows "\<exists>f. v1 = f v \<and> (\<forall>u. parse_flags D formal args u = Inr (f u, rest))"
  using assms
proof (induction D formal args v rule: parse_flags.induct)
  case (1 D formal args v)
  show ?case
  proof (cases args)
    case Nil
    with 1(2) show ?thesis by (auto simp: parse_flags.simps [of D formal "[]"] intro: exI [of _ id])
  next
    case (Cons s rest0)
    let ?name = "if s ! 1 = CHR ''-'' then drop 2 s else drop 1 s"
    show ?thesis
    proof (cases "length s < 2 \<or> hd s \<noteq> CHR ''-'' \<or> s = ''--''")
      case True
      with 1(2) Cons show ?thesis
        by (auto simp: parse_flags.simps split: if_splits intro: exI [of _ id])
    next
      case False
      with 1(2) Cons obtain var g rest1 where step:
        "\<not> (?name = [] \<or> hd ?name = CHR ''-'' \<or> hd ?name = CHR ''='')"
        "map_of formal (fst (split_flag ?name)) = Some var"
        "flag_value D var (snd (split_flag ?name)) rest0 = Some (g, rest1)"
        "parse_flags D formal rest1 (g v) = Inr (v1, rest)"
        by (subst (asm) parse_flags.simps) (auto simp: Let_def split: if_splits option.splits)
      from False have s: "\<not> (length s < 2 \<or> hd s \<noteq> CHR ''-'')" "s \<noteq> ''--''" by auto
      from 1(1) [OF Cons s refl step(1,2,3) refl step(4)] obtain f where
        f: "v1 = f (g v)" "\<forall>u. parse_flags D formal rest1 u = Inr (f u, rest)" by blast
      from Cons s step f(2) have "parse_flags D formal args u = Inr (f (g u), rest)" for u
        by (subst parse_flags.simps) (simp add: Let_def)
      with f(1) show ?thesis by (intro exI [of _ "f \<circ> g"]) simp
    qed
  qed
qed

end
