(* ===== verification/AppConfig.thy ===== *)
theory AppConfig
  imports Flags Pool
begin

text \<open>
  The configuration of the program (\<open>internal/config/config.go\<close>): environment variables, the
  \<open>.env\<close> file, flags, and the checks and corrections after parsing. The environment is a map;
  loading an \<open>.env\<close> file is done by the library godotenv and is a parameter.
\<close>

section \<open>The configuration and the environment\<close>

record Configuration =
  cf_BindAddr :: string
  cf_ServersFile :: string
  cf_KeyFile :: string
  cf_Username :: string
  cf_ProxyCommand :: string
  cf_Cloudflared :: bool
  cf_Strategy :: string
  cf_MaxActiveUpstreams :: int
  cf_MaxConnections :: int
  cf_TargetHost :: string
  cf_TargetPort :: int
  cf_HealthCheck :: bool
  cf_ShowUpstreamStats :: bool
  cf_HealthInterval :: duration
  cf_RetryCount :: int
  cf_RetryDelay :: duration
  cf_TargetRetryUpstreams :: int
  cf_TargetFailThreshold :: int
  cf_TargetFailTTL :: duration
  cf_Mode :: string
  cf_EnvFile :: string
  cf_StatusFile :: string
  cf_StatusLog :: bool
  cf_StatusFlushSec :: int
  cf_PIDFile :: string
  cf_LogFile :: string
  cf_Foreground :: bool
  cf_StopDaemon :: bool
  cf_StatusDaemon :: bool

type_synonym environ = "string \<rightharpoonup> string"

definition Getenv :: "environ \<Rightarrow> string \<Rightarrow> string" where
  "Getenv e key = (case e key of None \<Rightarrow> [] | Some v \<Rightarrow> v)"

definition getEnv :: "environ \<Rightarrow> string \<Rightarrow> string \<Rightarrow> string" where
  "getEnv e key defaultValue = (if Getenv e key \<noteq> [] then Getenv e key else defaultValue)"

definition getEnvInt :: "environ \<Rightarrow> string \<Rightarrow> int \<Rightarrow> int" where
  "getEnvInt e key defaultValue =
     (if Getenv e key \<noteq> [] then
        (case Atoi (Getenv e key) of Some intVal \<Rightarrow> intVal | None \<Rightarrow> defaultValue)
      else defaultValue)"

definition getEnvBool :: "environ \<Rightarrow> string \<Rightarrow> bool \<Rightarrow> bool" where
  "getEnvBool e key defaultValue =
     (if Getenv e key \<noteq> [] then EqualFold (Getenv e key) ''true'' else defaultValue)"

text \<open>\<open>os.UserHomeDir\<close> is the variable \<open>HOME\<close>, which must be set.\<close>

definition UserHomeDir :: "environ \<Rightarrow> go_error + string" where
  "UserHomeDir e = (if Getenv e ''HOME'' \<noteq> [] then Inr (Getenv e ''HOME'') else Inl (err_new ''$HOME is not defined''))"

definition expandPath :: "environ \<Rightarrow> string \<Rightarrow> go_error + string" where
  "expandPath e path =
     (if HasPrefix path ''~'' then
        (case UserHomeDir e of Inl err \<Rightarrow> Inl err | Inr homeUser \<Rightarrow> Inr (homeUser @ tl path))
      else Inr path)"

section \<open>The flags\<close>

text \<open>The two variables of \<open>-cf\<close> and \<open>-cloudflared\<close> beside the configuration.\<close>

record flag_vars = Configuration +
  cloudflaredShort :: bool
  cloudflaredLong :: bool

definition config_flags :: "(string \<times> flag_vars flag_var) list" where
  "config_flags =
     [(''bind'', StringVar (\<lambda>x. cf_BindAddr_update (\<lambda>_. x))),
      (''servers'', StringVar (\<lambda>x. cf_ServersFile_update (\<lambda>_. x))),
      (''key'', StringVar (\<lambda>x. cf_KeyFile_update (\<lambda>_. x))),
      (''user'', StringVar (\<lambda>x. cf_Username_update (\<lambda>_. x))),
      (''proxy-command'', StringVar (\<lambda>x. cf_ProxyCommand_update (\<lambda>_. x))),
      (''cf'', BoolVar (\<lambda>x. cloudflaredShort_update (\<lambda>_. x))),
      (''cloudflared'', BoolVar (\<lambda>x. cloudflaredLong_update (\<lambda>_. x))),
      (''strategy'', StringVar (\<lambda>x. cf_Strategy_update (\<lambda>_. x))),
      (''max-active-upstreams'', IntVar (\<lambda>x. cf_MaxActiveUpstreams_update (\<lambda>_. x))),
      (''max-connections'', IntVar (\<lambda>x. cf_MaxConnections_update (\<lambda>_. x))),
      (''target-host'', StringVar (\<lambda>x. cf_TargetHost_update (\<lambda>_. x))),
      (''target-port'', IntVar (\<lambda>x. cf_TargetPort_update (\<lambda>_. x))),
      (''health-check'', BoolVar (\<lambda>x. cf_HealthCheck_update (\<lambda>_. x))),
      (''upstream-stats'', BoolVar (\<lambda>x. cf_ShowUpstreamStats_update (\<lambda>_. x))),
      (''health-interval'', DurationVar (\<lambda>x. cf_HealthInterval_update (\<lambda>_. x))),
      (''retry'', IntVar (\<lambda>x. cf_RetryCount_update (\<lambda>_. x))),
      (''retry-delay'', DurationVar (\<lambda>x. cf_RetryDelay_update (\<lambda>_. x))),
      (''target-retry-upstreams'', IntVar (\<lambda>x. cf_TargetRetryUpstreams_update (\<lambda>_. x))),
      (''target-fail-threshold'', IntVar (\<lambda>x. cf_TargetFailThreshold_update (\<lambda>_. x))),
      (''target-fail-ttl'', DurationVar (\<lambda>x. cf_TargetFailTTL_update (\<lambda>_. x))),
      (''mode'', StringVar (\<lambda>x. cf_Mode_update (\<lambda>_. x))),
      (''env-file'', StringVar (\<lambda>x. cf_EnvFile_update (\<lambda>_. x))),
      (''status-file'', StringVar (\<lambda>x. cf_StatusFile_update (\<lambda>_. x))),
      (''status-log'', BoolVar (\<lambda>x. cf_StatusLog_update (\<lambda>_. x))),
      (''status-flush-sec'', IntVar (\<lambda>x. cf_StatusFlushSec_update (\<lambda>_. x))),
      (''pid-file'', StringVar (\<lambda>x. cf_PIDFile_update (\<lambda>_. x))),
      (''log-file'', StringVar (\<lambda>x. cf_LogFile_update (\<lambda>_. x))),
      (''fg'', BoolVar (\<lambda>x. cf_Foreground_update (\<lambda>_. x))),
      (''stop'', BoolVar (\<lambda>x. cf_StopDaemon_update (\<lambda>_. x))),
      (''status'', BoolVar (\<lambda>x. cf_StatusDaemon_update (\<lambda>_. x)))]"

text \<open>The defaults, from the environment \<open>e\<close> in which the flags are declared.\<close>

definition config_defaults :: "environ \<Rightarrow> bool \<Rightarrow> bool \<Rightarrow> string \<Rightarrow> flag_vars" where
  "config_defaults e cloudflaredDefault showStatsDefault envFile =
     \<lparr>cf_BindAddr = getEnv e ''BIND_ADDR'' ''127.0.0.1:6465'',
      cf_ServersFile = getEnv e ''SERVERS_FILE'' ''servers.txt'',
      cf_KeyFile = getEnv e ''KEY_FILE'' [],
      cf_Username = getEnv e ''SSH_USER'' ''root'',
      cf_ProxyCommand = getEnv e ''PROXY_COMMAND'' [],
      cf_Cloudflared = False,
      cf_Strategy = getEnv e ''SELECT_STRATEGY'' StrategyFailover,
      cf_MaxActiveUpstreams = getEnvInt e ''MAX_ACTIVE_UPSTREAMS'' 2,
      cf_MaxConnections = getEnvInt e ''MAX_CONNECTIONS'' 100,
      cf_TargetHost = getEnv e ''TARGET_HOST'' ''127.0.0.1'',
      cf_TargetPort = getEnvInt e ''TARGET_PORT'' 80,
      cf_HealthCheck = getEnvBool e ''HEALTH_CHECK'' True,
      cf_ShowUpstreamStats = showStatsDefault,
      cf_HealthInterval = 30 * second,
      cf_RetryCount = getEnvInt e ''RETRY_COUNT'' 3,
      cf_RetryDelay = 1 * second,
      cf_TargetRetryUpstreams = getEnvInt e ''TARGET_RETRY_UPSTREAMS'' 0,
      cf_TargetFailThreshold = getEnvInt e ''TARGET_FAIL_THRESHOLD'' 1,
      cf_TargetFailTTL = 10 * minute,
      cf_Mode = getEnv e ''MODE'' ''socks5'',
      cf_EnvFile = envFile,
      cf_StatusFile = getEnv e ''STATUS_FILE'' ''server_status.json'',
      cf_StatusLog = getEnvBool e ''STATUS_LOG'' True,
      cf_StatusFlushSec = getEnvInt e ''STATUS_FLUSH_SEC'' 30,
      cf_PIDFile = getEnv e ''PID_FILE'' ''ssh-roundrobin.pid'',
      cf_LogFile = getEnv e ''LOG_FILE'' [],
      cf_Foreground = getEnvBool e ''FOREGROUND'' False,
      cf_StopDaemon = False,
      cf_StatusDaemon = False,
      cloudflaredShort = cloudflaredDefault,
      cloudflaredLong = cloudflaredDefault\<rparr>"

section \<open>Checks and corrections\<close>

text \<open>\<open>Inl\<close> is an exit code; the message goes to standard error.\<close>

definition validateStrategy :: "'a Configuration_scheme \<Rightarrow> int + 'a Configuration_scheme" where
  "validateStrategy cfg =
     (let s = ToLower (TrimSpace (cf_Strategy cfg)) in
      if s = [] then Inr (cfg\<lparr>cf_Strategy := StrategyFailover\<rparr>)
      else if s = StrategyLoadBalance then Inr (cfg\<lparr>cf_Strategy := StrategyLoadBalance\<rparr>)
      else if s = StrategyFailover then Inr (cfg\<lparr>cf_Strategy := StrategyFailover\<rparr>)
      else Inl 2)"

definition validateMode :: "'a Configuration_scheme \<Rightarrow> int + 'a Configuration_scheme" where
  "validateMode cfg =
     (let m = ToLower (TrimSpace (cf_Mode cfg)) in
      if m \<in> {[], ''socks5''} then Inr (cfg\<lparr>cf_Mode := ''socks5''\<rparr>)
      else if m \<in> {''tcp-forward'', ''tcp'', ''forward'', ''static'', ''static-forward'', ''http''} then
        Inr (cfg\<lparr>cf_Mode := ''tcp-forward''\<rparr>)
      else Inl 2)"

definition correct_ranges :: "'a Configuration_scheme \<Rightarrow> 'a Configuration_scheme" where
  "correct_ranges cfg =
     cfg\<lparr>cf_MaxActiveUpstreams := (if cf_MaxActiveUpstreams cfg \<le> 0 then 1 else cf_MaxActiveUpstreams cfg),
         cf_TargetRetryUpstreams := (if cf_TargetRetryUpstreams cfg < 0 then 0 else cf_TargetRetryUpstreams cfg),
         cf_TargetFailThreshold := (if cf_TargetFailThreshold cfg \<le> 0 then 1 else cf_TargetFailThreshold cfg),
         cf_TargetFailTTL := (if cf_TargetFailTTL cfg \<le> 0 then 10 * minute else cf_TargetFailTTL cfg)\<rparr>"

definition expand_key :: "environ \<Rightarrow> 'a Configuration_scheme \<Rightarrow> 'a Configuration_scheme" where
  "expand_key e cfg =
     (if cf_KeyFile cfg \<noteq> [] then
        (case expandPath e (cf_KeyFile cfg) of
           Inl err \<Rightarrow> cfg
         | Inr expanded \<Rightarrow> cfg\<lparr>cf_KeyFile := expanded\<rparr>)
      else cfg)"

text \<open>The steps after \<open>flag.Parse\<close>.\<close>

definition finish_config :: "environ \<Rightarrow> flag_vars \<Rightarrow> int + Configuration" where
  "finish_config e v =
     (let cfg = v\<lparr>cf_Cloudflared := cloudflaredShort v \<or> cloudflaredLong v\<rparr> in
      case validateStrategy cfg of
        Inl code \<Rightarrow> Inl code
      | Inr cfg1 \<Rightarrow>
          (case validateMode cfg1 of
             Inl code \<Rightarrow> Inl code
           | Inr cfg2 \<Rightarrow>
               (let cfg3 = correct_ranges cfg2;
                    cfg4 = cfg3\<lparr>cf_TargetPort := getEnvInt e ''TARGET_PORT'' (cf_TargetPort cfg3)\<rparr>
                in Inr (Configuration.truncate (expand_key e cfg4)))))"

text \<open>
  What \<open>ParseConfig\<close> asks of its surroundings: whether a file exists, the environment after
  loading an \<open>.env\<close> file, and the text form of durations.
\<close>

record host =
  file_exists :: "string \<Rightarrow> bool"
  godotenv_Load :: "string \<Rightarrow> environ \<Rightarrow> environ"
  duration_text :: "string \<Rightarrow> int option"

definition env_file :: "environ \<Rightarrow> string" where
  "env_file e = getEnv e ''ENV_FILE'' ''.env''"

text \<open>The environment from the loading of the \<open>.env\<close> file on; a forked child inherits it.\<close>

definition loaded_env :: "host \<Rightarrow> environ \<Rightarrow> environ" where
  "loaded_env H e = (if file_exists H (env_file e) then godotenv_Load H (env_file e) e else e)"

definition ParseConfig :: "host \<Rightarrow> environ \<Rightarrow> string list \<Rightarrow> int + Configuration" where
  "ParseConfig H e args =
     (let cloudflaredDefault = getEnvBool e ''CLOUDFLARED'' False;
          showStatsDefault = getEnvBool e ''SHOW_UPSTREAM_STATS'' False;
          envFile = env_file e;
          e1 = loaded_env H e;
          defaults = config_defaults e1 cloudflaredDefault showStatsDefault envFile
      in case parse_flags (duration_text H) config_flags args defaults of
           Inl code \<Rightarrow> Inl code
         | Inr (v, _) \<Rightarrow> finish_config e1 v)"

section \<open>Properties\<close>

lemma finish_config_cases:
  assumes "finish_config e v = Inr cfg"
  obtains cfg1 cfg2 where "validateStrategy (v\<lparr>cf_Cloudflared := cloudflaredShort v \<or> cloudflaredLong v\<rparr>) = Inr cfg1"
    and "validateMode cfg1 = Inr cfg2"
    and "cfg = Configuration.truncate (expand_key e ((correct_ranges cfg2)
           \<lparr>cf_TargetPort := getEnvInt e ''TARGET_PORT'' (cf_TargetPort (correct_ranges cfg2))\<rparr>))"
  using assms by (auto simp: finish_config_def Let_def split: sum.splits)

lemma expand_key_fields [simp]:
  "cf_Strategy (expand_key e c) = cf_Strategy c" "cf_Mode (expand_key e c) = cf_Mode c"
  "cf_MaxActiveUpstreams (expand_key e c) = cf_MaxActiveUpstreams c"
  "cf_TargetRetryUpstreams (expand_key e c) = cf_TargetRetryUpstreams c"
  "cf_TargetFailThreshold (expand_key e c) = cf_TargetFailThreshold c"
  "cf_TargetFailTTL (expand_key e c) = cf_TargetFailTTL c"
  "cf_TargetPort (expand_key e c) = cf_TargetPort c"
  "cf_Foreground (expand_key e c) = cf_Foreground c"
  by (simp_all add: expand_key_def split: sum.split)

lemma truncate_fields [simp]:
  "cf_Strategy (Configuration.truncate c) = cf_Strategy c" "cf_Mode (Configuration.truncate c) = cf_Mode c"
  "cf_MaxActiveUpstreams (Configuration.truncate c) = cf_MaxActiveUpstreams c"
  "cf_TargetRetryUpstreams (Configuration.truncate c) = cf_TargetRetryUpstreams c"
  "cf_TargetFailThreshold (Configuration.truncate c) = cf_TargetFailThreshold c"
  "cf_TargetFailTTL (Configuration.truncate c) = cf_TargetFailTTL c"
  "cf_TargetPort (Configuration.truncate c) = cf_TargetPort c"
  "cf_Foreground (Configuration.truncate c) = cf_Foreground c"
  by (simp_all add: Configuration.truncate_def)

lemma validateStrategy_Inr:
  assumes "validateStrategy c = Inr c1"
  shows "cf_Strategy c1 \<in> {StrategyFailover, StrategyLoadBalance}"
    and "c1 = c\<lparr>cf_Strategy := cf_Strategy c1\<rparr>"
  using assms by (auto simp: validateStrategy_def Let_def split: if_splits)

lemma validateMode_Inr:
  assumes "validateMode c = Inr c1"
  shows "cf_Mode c1 \<in> {''socks5'', ''tcp-forward''}" and "c1 = c\<lparr>cf_Mode := cf_Mode c1\<rparr>"
  using assms by (auto simp: validateMode_def Let_def split: if_splits)

lemma correct_ranges_fields [simp]:
  "cf_Strategy (correct_ranges c) = cf_Strategy c" "cf_Mode (correct_ranges c) = cf_Mode c"
  "cf_Foreground (correct_ranges c) = cf_Foreground c" "cf_TargetPort (correct_ranges c) = cf_TargetPort c"
  "1 \<le> cf_MaxActiveUpstreams (correct_ranges c)" "0 \<le> cf_TargetRetryUpstreams (correct_ranges c)"
  "1 \<le> cf_TargetFailThreshold (correct_ranges c)" "0 < cf_TargetFailTTL (correct_ranges c)"
  by (simp_all add: correct_ranges_def minute_def second_def)

text \<open>What the steps after parsing make of the variables.\<close>

lemma finish_config_fields:
  assumes "finish_config e v = Inr cfg"
  shows "cf_Strategy cfg \<in> {StrategyFailover, StrategyLoadBalance}"
    and "cf_Mode cfg \<in> {''socks5'', ''tcp-forward''}"
    and "1 \<le> cf_MaxActiveUpstreams cfg" and "0 \<le> cf_TargetRetryUpstreams cfg"
    and "1 \<le> cf_TargetFailThreshold cfg" and "0 < cf_TargetFailTTL cfg"
    and "cf_TargetPort cfg = getEnvInt e ''TARGET_PORT'' (cf_TargetPort v)"
    and "cf_Foreground cfg = cf_Foreground v"
proof -
  from assms obtain c1 c2 where c1: "validateStrategy (v\<lparr>cf_Cloudflared := cloudflaredShort v \<or> cloudflaredLong v\<rparr>) = Inr c1"
    and c2: "validateMode c1 = Inr c2"
    and cfg: "cfg = Configuration.truncate (expand_key e ((correct_ranges c2)
           \<lparr>cf_TargetPort := getEnvInt e ''TARGET_PORT'' (cf_TargetPort (correct_ranges c2))\<rparr>))"
    by (rule finish_config_cases)
  from validateStrategy_Inr [OF c1] have s: "cf_Strategy c1 \<in> {StrategyFailover, StrategyLoadBalance}"
    "cf_TargetPort c1 = cf_TargetPort v" "cf_Foreground c1 = cf_Foreground v"
    by (simp, (cases c1, simp)+)
  from validateMode_Inr [OF c2] have m: "cf_Mode c2 \<in> {''socks5'', ''tcp-forward''}"
    "cf_Strategy c2 = cf_Strategy c1" "cf_TargetPort c2 = cf_TargetPort c1" "cf_Foreground c2 = cf_Foreground c1"
    by (simp, (cases c2, simp)+)
  show "cf_Strategy cfg \<in> {StrategyFailover, StrategyLoadBalance}"
    and "cf_Mode cfg \<in> {''socks5'', ''tcp-forward''}"
    and "1 \<le> cf_MaxActiveUpstreams cfg" and "0 \<le> cf_TargetRetryUpstreams cfg"
    and "1 \<le> cf_TargetFailThreshold cfg" and "0 < cf_TargetFailTTL cfg"
    and "cf_TargetPort cfg = getEnvInt e ''TARGET_PORT'' (cf_TargetPort v)"
    and "cf_Foreground cfg = cf_Foreground v"
    using s m by (simp_all add: cfg)
qed

lemma ParseConfig_cases:
  assumes "ParseConfig H e args = Inr cfg"
  obtains v rest where
    "parse_flags (duration_text H) config_flags args (config_defaults (loaded_env H e)
       (getEnvBool e ''CLOUDFLARED'' False) (getEnvBool e ''SHOW_UPSTREAM_STATS'' False) (env_file e)) = Inr (v, rest)"
    and "finish_config (loaded_env H e) v = Inr cfg"
  using assms by (auto simp: ParseConfig_def Let_def split: sum.splits prod.splits)

lemma normalizeStrategy_id:
  "s \<in> {StrategyFailover, StrategyLoadBalance} \<Longrightarrow> normalizeStrategy s = s"
  unfolding StrategyFailover_def StrategyLoadBalance_def by auto code_simp+

text \<open>C30: A configuration that \<open>ParseConfig\<close> returns is in range, whatever the environment, the
  \<open>.env\<close> file and the flags say: the strategy and the mode are one of the two known ones, the
  limits are at least 1 (the number of upstreams to try at least 0) and blocks last for a
  positive time; so the pool made from it has exactly its strategy and its limit.\<close>

theorem config_ranges:
  assumes "ParseConfig H e args = Inr cfg"
  shows "cf_Strategy cfg \<in> {StrategyFailover, StrategyLoadBalance} \<and>
    cf_Mode cfg \<in> {''socks5'', ''tcp-forward''} \<and> 1 \<le> cf_MaxActiveUpstreams cfg \<and>
    0 \<le> cf_TargetRetryUpstreams cfg \<and> 1 \<le> cf_TargetFailThreshold cfg \<and> 0 < cf_TargetFailTTL cfg \<and>
    rr_strategy (NewRoundRobin (cf_Strategy cfg) (cf_MaxActiveUpstreams cfg)) = cf_Strategy cfg \<and>
    rr_maxActive (NewRoundRobin (cf_Strategy cfg) (cf_MaxActiveUpstreams cfg)) = cf_MaxActiveUpstreams cfg"
proof -
  from assms obtain v where "finish_config (loaded_env H e) v = Inr cfg" by (rule ParseConfig_cases)
  note f = finish_config_fields [OF this]
  then show ?thesis using normalizeStrategy_id [OF f(1)] by (simp add: NewRoundRobin_def)
qed

definition sample_host :: host where
  "sample_host = \<lparr>file_exists = (\<lambda>p. p = ''.env''),
     godotenv_Load = (\<lambda>p e k. case e k of Some v \<Rightarrow> Some v
       | None \<Rightarrow> if k = ''CLOUDFLARED'' \<or> k = ''BIND_ADDR'' then Some ''true'' else None),
     duration_text = (\<lambda>s. None)\<rparr>"

definition sample_args :: "string list" where "sample_args = [''-target-port=443'']"

lemma sample_config:
  "case ParseConfig sample_host [''TARGET_PORT'' \<mapsto> ''80''] sample_args of
     Inl code \<Rightarrow> False
   | Inr cfg \<Rightarrow> cf_TargetPort cfg = 80 \<and> cf_BindAddr cfg = ''true'' \<and> \<not> cf_Cloudflared cfg"
  by code_simp

theorem config_ranges_witness:
  "\<exists>cfg. ParseConfig sample_host [''TARGET_PORT'' \<mapsto> ''80''] sample_args = Inr cfg \<and>
     1 \<le> cf_MaxActiveUpstreams cfg \<and> 0 < cf_TargetFailTTL cfg"
  using sample_config config_ranges [of sample_host "[''TARGET_PORT'' \<mapsto> ''80'']" sample_args]
  by (auto split: sum.splits)

text \<open>C31: The environment overrides the command line for the target port: when \<open>TARGET_PORT\<close> holds a
  number, in the environment or through the \<open>.env\<close> file, it is the target port whatever
  \<open>-target-port\<close> says.\<close>

theorem config_target_port_env:
  assumes "ParseConfig H e args = Inr cfg" and "Atoi (Getenv (loaded_env H e) ''TARGET_PORT'') = Some k"
  shows "cf_TargetPort cfg = k"
proof -
  from assms(1) obtain v where "finish_config (loaded_env H e) v = Inr cfg" by (rule ParseConfig_cases)
  then have "cf_TargetPort cfg = getEnvInt (loaded_env H e) ''TARGET_PORT'' (cf_TargetPort v)"
    by (rule finish_config_fields)
  moreover have "Getenv (loaded_env H e) ''TARGET_PORT'' \<noteq> []" using assms(2) by (auto simp: Atoi_def)
  ultimately show ?thesis using assms(2) by (simp add: getEnvInt_def)
qed

theorem config_target_port_env_witness:
  "\<exists>cfg. ParseConfig sample_host [''TARGET_PORT'' \<mapsto> ''80''] [''-target-port=443''] = Inr cfg \<and>
     cf_TargetPort cfg = 80"
proof -
  obtain cfg where cfg: "ParseConfig sample_host [''TARGET_PORT'' \<mapsto> ''80''] [''-target-port=443''] = Inr cfg"
    using sample_config by (auto simp: sample_args_def split: sum.splits)
  have "Atoi (Getenv (loaded_env sample_host [''TARGET_PORT'' \<mapsto> ''80'']) ''TARGET_PORT'') = Some 80"
    by code_simp
  from config_target_port_env [OF cfg this] cfg show ?thesis by blast
qed

text \<open>The variables that are read after the \<open>.env\<close> file has been loaded.\<close>

definition read_after_load :: "string set" where
  "read_after_load = {''BIND_ADDR'', ''SERVERS_FILE'', ''KEY_FILE'', ''SSH_USER'', ''PROXY_COMMAND'',
     ''SELECT_STRATEGY'', ''MAX_ACTIVE_UPSTREAMS'', ''MAX_CONNECTIONS'', ''TARGET_HOST'', ''TARGET_PORT'',
     ''HEALTH_CHECK'', ''RETRY_COUNT'', ''TARGET_RETRY_UPSTREAMS'', ''TARGET_FAIL_THRESHOLD'', ''MODE'',
     ''STATUS_FILE'', ''STATUS_LOG'', ''STATUS_FLUSH_SEC'', ''PID_FILE'', ''LOG_FILE'', ''FOREGROUND'', ''HOME''}"

lemma read_after_load_keys:
  "''BIND_ADDR'' \<in> read_after_load"
  "''SERVERS_FILE'' \<in> read_after_load"
  "''KEY_FILE'' \<in> read_after_load"
  "''SSH_USER'' \<in> read_after_load"
  "''PROXY_COMMAND'' \<in> read_after_load"
  "''SELECT_STRATEGY'' \<in> read_after_load"
  "''MAX_ACTIVE_UPSTREAMS'' \<in> read_after_load"
  "''MAX_CONNECTIONS'' \<in> read_after_load"
  "''TARGET_HOST'' \<in> read_after_load"
  "''TARGET_PORT'' \<in> read_after_load"
  "''HEALTH_CHECK'' \<in> read_after_load"
  "''RETRY_COUNT'' \<in> read_after_load"
  "''TARGET_RETRY_UPSTREAMS'' \<in> read_after_load"
  "''TARGET_FAIL_THRESHOLD'' \<in> read_after_load"
  "''MODE'' \<in> read_after_load"
  "''STATUS_FILE'' \<in> read_after_load"
  "''STATUS_LOG'' \<in> read_after_load"
  "''STATUS_FLUSH_SEC'' \<in> read_after_load"
  "''PID_FILE'' \<in> read_after_load"
  "''LOG_FILE'' \<in> read_after_load"
  "''FOREGROUND'' \<in> read_after_load"
  "''HOME'' \<in> read_after_load"
  by (simp_all add: read_after_load_def)



end
