(* ===== verification/Daemon.thy ===== *)
theory Daemon
  imports AppConfig StatusFile
begin

text \<open>
  Running in the background (\<open>internal/daemon/daemon.go\<close>) and the entry point
  (\<open>cmd/main.go\<close>): forking, the PID file, and stopping a running daemon. What the operating
  system answers is the record \<open>os\<close>; files are those of \<open>StatusFile\<close>.
\<close>

section \<open>The operating system\<close>

datatype signal = Probe | SIGTERM

text \<open>
  \<open>Probe\<close> is signal 0, which only asks whether the process can be signalled. \<open>fork_exec\<close> gets
  the program and its arguments and answers the child's process id.
\<close>

record os =
  os_disk :: disk
  Executable :: "tick \<Rightarrow> go_error + string"
  EvalSymlinks :: "tick \<Rightarrow> string \<Rightarrow> go_error + string"
  open_error :: "tick \<Rightarrow> string \<Rightarrow> go_error option"
  fork_exec :: "tick \<Rightarrow> string \<Rightarrow> string list \<Rightarrow> go_error + int"
  own_pid :: int
  remove_error :: "tick \<Rightarrow> go_error option"
  FindProcess :: "tick \<Rightarrow> int \<Rightarrow> go_error option"
  send_signal :: "tick \<Rightarrow> int \<Rightarrow> signal \<Rightarrow> go_error option"

text \<open>\<open>os.WriteFile\<close>: the file is opened and emptied, written and closed.\<close>

definition os_WriteFile :: "os \<Rightarrow> string \<Rightarrow> string \<Rightarrow> tick \<Rightarrow> go_error option \<times> fs_op list \<times> tick" where
  "os_WriteFile M path data n =
     (case open_error M n path of
        Some err \<Rightarrow> (Some err, [], n + 1)
      | None \<Rightarrow>
          (case write_error (os_disk M) (n + 1) of
             Some (err, k) \<Rightarrow> (Some err, [CreateFile path, WriteFile path (take k data)], n + 3)
           | None \<Rightarrow> (close_error (os_disk M) (n + 2), [CreateFile path, WriteFile path data], n + 3)))"

definition os_Remove :: "os \<Rightarrow> string \<Rightarrow> fs \<Rightarrow> tick \<Rightarrow> go_error option \<times> fs_op list \<times> tick" where
  "os_Remove M path fs n =
     (case remove_error M n of
        Some err \<Rightarrow> (Some err, [], n + 1)
      | None \<Rightarrow> if fs path = None then (Some ErrNotExist, [], n + 1) else (None, [RemoveFile path], n + 1))"

text \<open>The error of \<open>strconv.Atoi\<close>, which wraps one of two values.\<close>

definition ErrSyntax :: go_error where "ErrSyntax = Sentinel ''invalid syntax''"
definition ErrRange :: go_error where "ErrRange = Sentinel ''value out of range''"

definition Atoi_error :: "string \<Rightarrow> go_error" where
  "Atoi_error s =
     (let body = (if s \<noteq> [] \<and> (hd s = CHR ''-'' \<or> hd s = CHR ''+'') then tl s else s);
          cause = (if body \<noteq> [] \<and> digits_val 0 body \<noteq> None then ErrRange else ErrSyntax)
      in Errorf (''strconv.Atoi: parsing '' @ Quote s @ '': '' @ Error cause) (Some cause))"

section \<open>daemon.go\<close>

text \<open>The arguments of the child: those of the parent, with \<open>-fg\<close> added unless it is there.\<close>

definition child_args :: "string \<Rightarrow> string list \<Rightarrow> string list" where
  "child_args execPath os_Args =
     execPath # tl os_Args @ (if ''-fg'' \<in> set (tl os_Args) then [] else [''-fg''])"

text \<open>The result has the error, the arguments of the child once it has been started, and the changes of files.\<close>

definition Daemonize ::
    "os \<Rightarrow> string list \<Rightarrow> string \<Rightarrow> string \<Rightarrow> tick \<Rightarrow> go_error option \<times> string list option \<times> fs_op list \<times> tick" where
  "Daemonize M os_Args pidFile logFile n =
     (case Executable M n of
        Inl err \<Rightarrow>
          (Some (Errorf (''failed to resolve executable path: '' @ Error err) (Some err)), None, [], n + 1)
      | Inr path \<Rightarrow>
     (case EvalSymlinks M (n + 1) path of
        Inl err \<Rightarrow>
          (Some (Errorf (''failed to resolve executable symlink: '' @ Error err) (Some err)), None, [], n + 2)
      | Inr execPath \<Rightarrow>
     (case open_error M (n + 2) (if logFile \<noteq> [] then logFile else ''/dev/null'') of
        Some err \<Rightarrow>
          (Some (Errorf ((if logFile \<noteq> [] then ''failed to open log file for daemon: ''
                          else ''failed to open /dev/null: '') @ Error err) (Some err)), None, [], n + 3)
      | None \<Rightarrow>
          (let args = child_args execPath os_Args in
           case fork_exec M (n + 3) execPath args of
             Inl err \<Rightarrow> (Some (Errorf (''failed to fork daemon: '' @ Error err) (Some err)), None, [], n + 4)
           | Inr pid \<Rightarrow>
               if pidFile = [] then (None, Some args, [], n + 4)
               else (case os_WriteFile M pidFile (Itoa pid @ [CHR 0x0A]) (n + 4) of
                       (_, ops, n1) \<Rightarrow> (None, Some args, ops, n1))))))"

definition WritePID :: "os \<Rightarrow> string \<Rightarrow> tick \<Rightarrow> go_error option \<times> fs_op list \<times> tick" where
  "WritePID M pidFile n =
     (if pidFile = [] then (None, [], n)
      else (case os_WriteFile M pidFile (Itoa (own_pid M) @ [CHR 0x0A]) n of
              (Some err, ops, n1) \<Rightarrow>
                (Some (Errorf (''failed to write PID file: '' @ Error err) (Some err)), ops, n1)
            | (None, ops, n1) \<Rightarrow> (None, ops, n1)))"

definition RemovePID :: "os \<Rightarrow> string \<Rightarrow> fs \<Rightarrow> tick \<Rightarrow> go_error option \<times> fs_op list \<times> tick" where
  "RemovePID M pidFile fs n =
     (if pidFile = [] then (None, [], n)
      else (case os_Remove M pidFile fs n of
              (Some err, ops, n1) \<Rightarrow>
                if errors_Is err ErrNotExist then (None, ops, n1)
                else (Some (Errorf (''failed to remove PID file: '' @ Error err) (Some err)), ops, n1)
            | (None, ops, n1) \<Rightarrow> (None, ops, n1)))"

definition ReadPID :: "os \<Rightarrow> string \<Rightarrow> fs \<Rightarrow> tick \<Rightarrow> (go_error + int) \<times> tick" where
  "ReadPID M pidFile fs n =
     (case ReadFile (os_disk M) pidFile fs n of
        Inl err \<Rightarrow> (Inl (Errorf (''failed to read PID file: '' @ Error err) (Some err)), n + 1)
      | Inr data \<Rightarrow>
          (let pidStr = TrimSpace data in
           case Atoi pidStr of
             None \<Rightarrow>
               (Inl (Errorf (''invalid PID in file: '' @ Error (Atoi_error pidStr)) (Some (Atoi_error pidStr))), n + 1)
           | Some pid \<Rightarrow> (Inr pid, n + 1)))"

definition IsRunning :: "os \<Rightarrow> string \<Rightarrow> fs \<Rightarrow> tick \<Rightarrow> (bool \<times> int \<times> go_error option) \<times> tick" where
  "IsRunning M pidFile fs n =
     (case ReadPID M pidFile fs n of
        (Inl err, n1) \<Rightarrow> ((False, 0, Some err), n1)
      | (Inr pid, n1) \<Rightarrow>
          (case FindProcess M n1 pid of
             Some err \<Rightarrow> ((False, pid, None), n1 + 1)
           | None \<Rightarrow>
               (case send_signal M (n1 + 1) pid Probe of
                  Some err \<Rightarrow> ((False, pid, None), n1 + 2)
                | None \<Rightarrow> ((True, pid, None), n1 + 2))))"

text \<open>
  The loop that waits for the process to exit. A round spends a tick on the clock, one on the
  signal and one on the sleep of 100 ms.
\<close>

definition did_not_exit :: "int \<Rightarrow> go_error" where
  "did_not_exit pid = err_new (''process '' @ Itoa pid @ '' did not exit within 10s after SIGTERM'')"

partial_function (option) wait_exit ::
    "os \<Rightarrow> env \<Rightarrow> int \<Rightarrow> time \<Rightarrow> tick \<Rightarrow> (go_error option \<times> tick) option" where
  "wait_exit M E pid deadline n =
     (if time_now E n < deadline then
        (case send_signal M (n + 1) pid Probe of
           Some err \<Rightarrow> Some (None, n + 2)
         | None \<Rightarrow> wait_exit M E pid deadline (n + 3))
      else Some (Some (did_not_exit pid), n + 1))"

declare wait_exit.simps [code]

definition daemon_Stop :: "os \<Rightarrow> env \<Rightarrow> string \<Rightarrow> fs \<Rightarrow> tick \<Rightarrow> (go_error option \<times> tick) option" where
  "daemon_Stop M E pidFile fs n =
     (case IsRunning M pidFile fs n of
        ((running, pid, Some err), n1) \<Rightarrow>
          Some (Some (Errorf (''failed to check daemon status: '' @ Error err) (Some err)), n1)
      | ((running, pid, None), n1) \<Rightarrow>
     if \<not> running then
       Some (Some (err_new (''daemon is not running (PID file: '' @ pidFile @ '')'')), n1)
     else
       (case FindProcess M n1 pid of
          Some err \<Rightarrow>
            Some (Some (Errorf (''failed to find process '' @ Itoa pid @ '': '' @ Error err) (Some err)), n1 + 1)
        | None \<Rightarrow>
       (case send_signal M (n1 + 1) pid SIGTERM of
          Some err \<Rightarrow>
            Some (Some (Errorf (''failed to send SIGTERM to PID '' @ Itoa pid @ '': '' @ Error err) (Some err)), n1 + 2)
        | None \<Rightarrow> wait_exit M E pid (time_now E (n1 + 2) + 10 * second) (n1 + 3))))"

definition daemon_Status :: "os \<Rightarrow> string \<Rightarrow> fs \<Rightarrow> tick \<Rightarrow> (bool \<times> int \<times> go_error option) \<times> tick" where
  "daemon_Status M pidFile fs n = IsRunning M pidFile fs n"

section \<open>main.go\<close>

text \<open>
  How \<open>main\<close> goes on after the configuration: it exits, exits after starting a child with the
  given arguments, or runs the application (and removes the PID file when that returns).
\<close>

datatype main_end = Exits int | Detached "string list" | Serves Configuration

definition go_main ::
    "host \<Rightarrow> os \<Rightarrow> env \<Rightarrow> environ \<Rightarrow> string list \<Rightarrow> fs \<Rightarrow> tick \<Rightarrow> (main_end \<times> fs_op list \<times> tick) option" where
  "go_main H M E e os_Args fs n =
     (case ParseConfig H e (tl os_Args) of
        Inl code \<Rightarrow> Some (Exits code, [], n)
      | Inr cfg \<Rightarrow>
     if cf_StopDaemon cfg then
       map_option (\<lambda>(err, n1). (Exits (if err = None then 0 else 1), [], n1))
         (daemon_Stop M E (cf_PIDFile cfg) fs n)
     else if cf_StatusDaemon cfg then
       (case daemon_Status M (cf_PIDFile cfg) fs n of
          ((running, pid, err), n1) \<Rightarrow> Some (Exits (if err = None then 0 else 1), [], n1))
     else if \<not> cf_Foreground cfg then
       (case Daemonize M os_Args (cf_PIDFile cfg) (cf_LogFile cfg) n of
          (Some err, _, ops, n1) \<Rightarrow> Some (Exits 1, ops, n1)
        | (None, None, ops, n1) \<Rightarrow> Some (Exits 0, ops, n1)
        | (None, Some args, ops, n1) \<Rightarrow> Some (Detached args, ops, n1))
     else Some (Serves cfg, [], n))"

section \<open>The PID file\<close>

lemma os_WriteFile_ok:
  "os_WriteFile M path data n = (None, ops, n1) \<Longrightarrow> fs_run fs ops = fs(path \<mapsto> data)"
  by (auto simp: os_WriteFile_def split: option.splits)

text \<open>C33: The PID file is read as it was written: after a successful \<open>WritePID\<close>, reading the file gives
  the process id of the writer, whatever file was there before; no other file changes, and
  \<open>RemovePID\<close> takes it away again without an error, also when it is already gone.\<close>

theorem pid_file_roundtrip:
  assumes "WritePID M path n = (None, ops, n1)" and "path \<noteq> []" and "in_int64 (own_pid M)"
    and "read_error (os_disk M) m = None" and "remove_error M l = None"
  shows "ReadPID M path (fs_run fs ops) m = (Inr (own_pid M), m + 1) \<and>
    (\<forall>q. q \<noteq> path \<longrightarrow> fs_run fs ops q = fs q) \<and>
    (case RemovePID M path (fs_run fs ops) l of
       (err, rms, _) \<Rightarrow> err = None \<and> fs_run (fs_run fs ops) rms path = None) \<and>
    fst (RemovePID M path (fs(path := None)) l) = None"
proof -
  from assms(1,2) have "os_WriteFile M path (Itoa (own_pid M) @ [CHR 0x0A]) n = (None, ops, n1)"
    by (auto simp: WritePID_def split: prod.splits option.splits)
  from os_WriteFile_ok [OF this] have "fs_run fs ops = fs(path \<mapsto> Itoa (own_pid M) @ [CHR 0x0A])" .
  with assms(2-5) show ?thesis
    by (simp add: ReadPID_def ReadFile_def TrimSpace_Itoa_newline Atoi_Itoa RemovePID_def os_Remove_def ErrNotExist_def)
qed

section \<open>Stopping a daemon\<close>

text \<open>
  What the documentation of \<open>time\<close> promises: the clock that \<open>time.Now\<close> reads never goes back,
  and a sleep of 100 ms lasts at least that long.
\<close>

definition clock_runs :: "env \<Rightarrow> bool" where
  "clock_runs E \<longleftrightarrow>
     (\<forall>m n. m \<le> n \<longrightarrow> time_now E m \<le> time_now E n) \<and>
     (\<forall>n. time_now E n + second div 10 \<le> time_now E (n + 3))"

lemma wait_exit_returns:
  assumes "clock_runs E" and "deadline \<le> time_now E n + int k * (second div 10)"
  shows "\<exists>err n1. wait_exit M E pid deadline n = Some (err, n1) \<and> n1 \<le> n + 3 * k + 2 \<and>
    (err = None \<longrightarrow> (\<exists>m \<ge> n. send_signal M m pid Probe \<noteq> None)) \<and>
    (err \<noteq> None \<longrightarrow> deadline \<le> time_now E n1)"
  using assms(2)
proof (induction k arbitrary: n)
  case 0
  have "time_now E n \<le> time_now E (n + 1)" using assms(1) by (simp add: clock_runs_def)
  with 0 show ?case by (subst wait_exit.simps) simp
next
  case (Suc k)
  show ?case
  proof (cases "time_now E n < deadline \<and> send_signal M (n + 1) pid Probe = None")
    case True
    have "time_now E n + second div 10 \<le> time_now E (n + 3)" using assms(1) by (simp add: clock_runs_def)
    with Suc.prems have "deadline \<le> time_now E (n + 3) + int k * (second div 10)"
      by (simp add: algebra_simps)
    from Suc.IH [OF this] obtain err n1 where
      "wait_exit M E pid deadline (n + 3) = Some (err, n1)" "n1 \<le> n + 3 + 3 * k + 2"
      "err = None \<longrightarrow> (\<exists>m \<ge> n + 3. send_signal M m pid Probe \<noteq> None)"
      "err \<noteq> None \<longrightarrow> deadline \<le> time_now E n1" by blast
    moreover from this(3) have "err = None \<longrightarrow> (\<exists>m \<ge> n. send_signal M m pid Probe \<noteq> None)"
      using le_trans [of n "n + 3"] by fastforce
    ultimately show ?thesis using True by (subst wait_exit.simps) simp
  next
    case False
    have "time_now E n \<le> time_now E (n + 1)" using assms(1) by (simp add: clock_runs_def)
    with False show ?thesis
      by (subst wait_exit.simps) (auto intro!: exI [of _ "Suc n"])
  qed
qed

lemma IsRunning_ticks: "snd (IsRunning M path fs n) \<le> n + 3"
  by (auto simp: IsRunning_def ReadPID_def Let_def split: sum.splits option.splits prod.splits)

text \<open>C34: Stopping a daemon comes to an end: when sleeping passes time, \<open>Stop\<close> returns after at most
  101 rounds of its loop. It reports success only when the file named a process that answered,
  took the SIGTERM and later could not be signalled any more; an error after the SIGTERM means
  that ten seconds have passed.\<close>

theorem daemon_stop_returns:
  assumes "clock_runs E"
  shows "\<exists>err n2. daemon_Stop M E path fs n = Some (err, n2) \<and> n2 \<le> n + 312 \<and>
    (case IsRunning M path fs n of
       ((running, pid, lookup), n1) \<Rightarrow>
         if running \<and> FindProcess M n1 pid = None \<and> send_signal M (n1 + 1) pid SIGTERM = None
         then (err = None \<longrightarrow> (\<exists>m > n1 + 1. send_signal M m pid Probe \<noteq> None)) \<and>
              (err \<noteq> None \<longrightarrow> time_now E (n1 + 2) + 10 * second \<le> time_now E n2)
         else err \<noteq> None)"
proof -
  obtain running pid lookup n1 where r: "IsRunning M path fs n = ((running, pid, lookup), n1)"
    by (metis prod_cases3 surj_pair)
  from IsRunning_ticks [of M path fs n] r have n1: "n1 \<le> n + 3" by simp
  have none: "lookup = None" if "running"
    using r that by (auto simp: IsRunning_def split: sum.splits option.splits prod.splits)
  show ?thesis
  proof (cases "running \<and> FindProcess M n1 pid = None \<and> send_signal M (n1 + 1) pid SIGTERM = None")
    case True
    let ?d = "time_now E (n1 + 2) + 10 * second"
    have "time_now E (n1 + 2) \<le> time_now E (n1 + 3)" using assms by (simp add: clock_runs_def)
    then have "?d \<le> time_now E (n1 + 3) + int 100 * (second div 10)" by (simp add: second_def)
    from wait_exit_returns [OF assms this, of M pid] obtain err n2 where
      w: "wait_exit M E pid ?d (n1 + 3) = Some (err, n2)" "n2 \<le> n1 + 3 + 3 * 100 + 2"
        "err = None \<longrightarrow> (\<exists>m \<ge> n1 + 3. send_signal M m pid Probe \<noteq> None)"
        "err \<noteq> None \<longrightarrow> ?d \<le> time_now E n2" by blast
    from w(3) have "err = None \<longrightarrow> (\<exists>m > n1 + 1. send_signal M m pid Probe \<noteq> None)"
      using less_le_trans [of "n1 + 1" "n1 + 3"] by fastforce
    with r True none w n1 show ?thesis by (auto simp: daemon_Stop_def)
  next
    case False
    with r none n1 show ?thesis
      by (cases running; cases lookup) (auto simp: daemon_Stop_def split: option.splits)
  qed
qed

section \<open>Forking\<close>

lemma parse_fg: "parse_flags D config_flags [''-fg''] v = Inr (v\<lparr>cf_Foreground := True\<rparr>, [])"
proof -
  have "map_of config_flags ''fg'' = Some (BoolVar (\<lambda>x. cf_Foreground_update (\<lambda>_. x)))"
    by (simp add: config_flags_def)
  then show ?thesis
    by (simp add: parse_flags.simps [of D config_flags "[''-fg'']"] parse_flags.simps [of D config_flags "[]"]
        split_flag_def flag_value_def Let_def)
qed

text \<open>C35: A child in the background does not fork again: when the arguments of the parent are flags to
  the end and \<open>-fg\<close> is not among them, then every configuration that the child parses from the
  arguments it is given, in whatever environment, runs in the foreground.\<close>

theorem daemon_child_in_foreground:
  assumes "parse_flags (duration_text H) config_flags args v = Inr (v1, [])"
    and "''--'' \<notin> set args" and "''-fg'' \<notin> set args"
    and "Daemonize M (prog # args) pidFile logFile n = (None, Some argv, ops, n1)"
    and "ParseConfig H e (tl argv) = Inr cfg"
  shows "cf_Foreground cfg"
proof -
  have argv: "tl argv = args @ [''-fg'']"
    using assms(3,4) by (auto simp: Daemonize_def child_args_def Let_def split: sum.splits option.splits if_splits prod.splits)
  from parse_flags_update [OF assms(1)] obtain f where
    "parse_flags (duration_text H) config_flags args u = Inr (f u, [])" for u by blast
  from parse_flags_append [OF this assms(2), of "[''-fg'']"]
  have parse: "parse_flags (duration_text H) config_flags (tl argv) u = Inr ((f u)\<lparr>cf_Foreground := True\<rparr>, [])" for u
    by (simp add: parse_fg argv)
  from assms(5) obtain w where "finish_config (loaded_env H e) w = Inr cfg" "cf_Foreground w"
    by (rule ParseConfig_cases) (use parse in auto)
  then show ?thesis using finish_config_fields(8) by blast
qed

text \<open>
  The environment and the arguments after \<open>k\<close> forks: a child inherits the environment with what
  the \<open>.env\<close> file added to it.
\<close>

definition generation :: "host \<Rightarrow> string \<Rightarrow> nat \<Rightarrow> environ \<Rightarrow> string list \<Rightarrow> environ \<times> string list" where
  "generation H exec k e argv = ((\<lambda>(e, a). (loaded_env H e, child_args exec a)) ^^ k) (e, argv)"

lemma generation_Suc:
  "generation H exec (Suc k) e argv =
     (case generation H exec k e argv of (e1, a) \<Rightarrow> (loaded_env H e1, child_args exec a))"
  by (simp add: generation_def)

lemma generation_steady:
  assumes "loaded_env H e = e"
  shows "\<exists>a more. generation H exec k e argv = (e, a) \<and> tl a = tl argv @ more"
proof (induction k)
  case (Suc k)
  then obtain a more where "generation H exec k e argv = (e, a)" "tl a = tl argv @ more" by blast
  moreover have "\<exists>m. tl (child_args exec a) = tl a @ m" by (simp add: child_args_def)
  ultimately show ?case using assms by (auto simp: generation_Suc)
qed (simp add: generation_def)

text \<open>C36: With an argument that is not a flag the program forks for ever: flag parsing stops at that
  argument, so the \<open>-fg\<close> that is added behind it is not seen, and every generation of children
  goes into the background again (here with an environment that loading the \<open>.env\<close> file does not
  change, and a system in which starting a process succeeds).\<close>

theorem daemon_fork_chain:
  assumes "parse_flags (duration_text H) config_flags args v = Inr (v1, p # ps)"
    and "ParseConfig H e args = Inr cfg" and "\<not> cf_Foreground cfg" and "\<not> cf_StopDaemon cfg"
    and "\<not> cf_StatusDaemon cfg" and "loaded_env H e = e"
    and "\<And>n. Executable M n = Inr exec" and "\<And>n p. EvalSymlinks M n p = Inr exec"
    and "\<And>n p. open_error M n p = None" and "\<And>n a. fork_exec M n exec a = Inr pid"
  shows "\<exists>ops n1. go_main H M E (fst (generation H exec k e (prog # args)))
      (snd (generation H exec k e (prog # args))) fs n =
    Some (Detached (snd (generation H exec (Suc k) e (prog # args))), ops, n1)"
proof -
  from generation_steady [OF assms(6)] obtain a more where
    g: "generation H exec k e (prog # args) = (e, a)" "tl a = args @ more"
    by (metis list.sel(3))
  from parse_flags_update [OF assms(1)] obtain f where
    f: "parse_flags (duration_text H) config_flags args u = Inr (f u, p # ps)" for u by blast
  have "parse_flags (duration_text H) config_flags (args @ more) u = Inr (f u, p # ps @ more)" for u
    by (rule parse_flags_stopped [OF f])
  then have "ParseConfig H e (args @ more) = ParseConfig H e args"
    unfolding ParseConfig_def Let_def f by simp
  with assms(2) g(2) have "ParseConfig H e (tl a) = Inr cfg" by simp
  moreover have "snd (generation H exec (Suc k) e (prog # args)) = child_args exec a"
    by (simp add: generation_Suc g(1))
  ultimately show ?thesis
    using assms(3-5,7-) g(1) by (simp add: go_main_def Daemonize_def Let_def split: prod.split)
qed

section \<open>Witnesses\<close>

definition sample_os :: os where
  "sample_os = \<lparr>os_disk = sample_disk, Executable = (\<lambda>n. Inr ''/bin/rr''),
     EvalSymlinks = (\<lambda>n p. Inr ''/bin/rr''), open_error = (\<lambda>n p. None),
     fork_exec = (\<lambda>n p a. Inr 42), own_pid = 42, remove_error = (\<lambda>n. None),
     FindProcess = (\<lambda>n p. None),
     send_signal = (\<lambda>n p s. if s = Probe \<and> 8 < n then Some (Sentinel ''os: process already finished'') else None)\<rparr>"

definition sample_pid_file :: fs where
  "sample_pid_file = [''rr.pid'' \<mapsto> ''42'' @ [CHR 0x0A]]"

theorem pid_file_roundtrip_witness:
  "ReadPID sample_os ''rr.pid'' sample_pid_file 5 = (Inr 42, 6)"
proof -
  have w: "WritePID sample_os ''rr.pid'' 0 = (None, [CreateFile ''rr.pid'', WriteFile ''rr.pid'' (''42'' @ [CHR 0x0A])], 3)"
    by code_simp
  show ?thesis
    using pid_file_roundtrip [OF w, where m = 5 and l = 0 and fs = Map.empty]
    by (simp add: sample_pid_file_def) (simp add: sample_os_def sample_disk_def in_int64_def)
qed

lemma sample_clock: "clock_runs (sample_env [])"
  by (simp add: clock_runs_def sample_env_def second_def)

theorem daemon_stop_returns_witness:
  "\<exists>n2. daemon_Stop sample_os (sample_env []) ''rr.pid'' sample_pid_file 0 = Some (None, n2) \<and> n2 \<le> 312"
proof -
  have "daemon_Stop sample_os (sample_env []) ''rr.pid'' sample_pid_file 0 = Some (None, 11)"
    by code_simp
  with daemon_stop_returns [OF sample_clock, of sample_os "''rr.pid''" sample_pid_file 0] show ?thesis by auto
qed

definition bind_args :: "string list" where "bind_args = [''-bind'', ''x:1'']"

theorem daemon_child_in_foreground_witness:
  "\<exists>cfg. ParseConfig sample_host Map.empty [''-bind'', ''x:1'', ''-fg''] = Inr cfg \<and> cf_Foreground cfg"
proof -
  have "case parse_flags (duration_text sample_host) config_flags bind_args (config_defaults Map.empty False False []) of
      Inl _ \<Rightarrow> False | Inr (v, rest) \<Rightarrow> rest = []"
    by code_simp
  then obtain v where v: "parse_flags (duration_text sample_host) config_flags bind_args
      (config_defaults Map.empty False False []) = Inr (v, [])"
    by (auto split: sum.splits)
  have d: "Daemonize sample_os (''rr'' # bind_args) [] [] 0 =
      (None, Some [''/bin/rr'', ''-bind'', ''x:1'', ''-fg''], [], 4)"
    by code_simp
  have "case ParseConfig sample_host Map.empty [''-bind'', ''x:1'', ''-fg''] of Inl _ \<Rightarrow> False | Inr cfg \<Rightarrow> True"
    by code_simp
  then obtain cfg where "ParseConfig sample_host Map.empty [''-bind'', ''x:1'', ''-fg''] = Inr cfg"
    by (auto split: sum.splits)
  moreover from daemon_child_in_foreground [OF v _ _ d, of Map.empty cfg] this
  have "cf_Foreground cfg" by (simp add: bind_args_def)
  ultimately show ?thesis by blast
qed

definition plain_host :: host where
  "plain_host = \<lparr>file_exists = (\<lambda>p. False), godotenv_Load = (\<lambda>p e. e), duration_text = (\<lambda>s. None)\<rparr>"

theorem daemon_fork_chain_witness:
  "\<exists>ops n1. go_main plain_host sample_os (sample_env [])
      (fst (generation plain_host ''/bin/rr'' 7 Map.empty [''rr'', ''foo'']))
      (snd (generation plain_host ''/bin/rr'' 7 Map.empty [''rr'', ''foo''])) Map.empty 0 =
    Some (Detached (snd (generation plain_host ''/bin/rr'' (Suc 7) Map.empty [''rr'', ''foo''])), ops, n1)"
proof -
  have p: "parse_flags (duration_text plain_host) config_flags [''foo''] v = Inr (v, [''foo''])" for v
    by (simp add: parse_flags.simps)
  have "case ParseConfig plain_host Map.empty [''foo''] of Inl _ \<Rightarrow> False
      | Inr cfg \<Rightarrow> \<not> cf_Foreground cfg \<and> \<not> cf_StopDaemon cfg \<and> \<not> cf_StatusDaemon cfg"
    by code_simp
  then obtain cfg where "ParseConfig plain_host Map.empty [''foo''] = Inr cfg" "\<not> cf_Foreground cfg"
    "\<not> cf_StopDaemon cfg" "\<not> cf_StatusDaemon cfg"
    by (auto split: sum.splits)
  from daemon_fork_chain [OF p this, of sample_os "''/bin/rr''" 42 "sample_env []" 7 "''rr''" Map.empty 0]
  show ?thesis by (simp add: loaded_env_def plain_host_def sample_os_def)
qed

end
