(* ===== verification/App.thy ===== *)
theory App
  imports PoolSystem Socks5 ServersFile Daemon
begin

text \<open>
  The application (\<open>internal/app\<close>): starting up, the accept loop with its connection slots, the
  periodic health check and the shutdown. The pool and the world with the tracker are those of
  \<open>Dialling\<close>; log lines are modelled where the code computes them.
\<close>

section \<open>State\<close>

text \<open>
  The channels: \<open>connSem\<close> by its capacity and the number of tokens in it, the other two by
  whether they are closed. The configuration, the pool and the tracker are passed beside.
\<close>

record App =
  a_connSem :: int
  a_slots :: int
  a_shutdownCh :: bool
  a_healthStop :: bool
  a_listener :: bool
  a_logFile :: bool

definition New :: "Configuration \<Rightarrow> App" where
  "New cfg =
     (let maxConns = (if cf_MaxConnections cfg \<le> 0 then 100 else cf_MaxConnections cfg)
      in \<lparr>a_connSem = maxConns, a_slots = 0, a_shutdownCh = False, a_healthStop = False,
          a_listener = False, a_logFile = False\<rparr>)"

text \<open>What starting up asks of its surroundings beside \<open>os\<close>, \<open>env\<close> and \<open>json\<close>.\<close>

record startup_io =
  open_servers :: "string \<Rightarrow> go_error + (string \<times> go_error option)"
  listen_error :: "tick \<Rightarrow> string \<Rightarrow> go_error option"

section \<open>connect.go\<close>

type_synonym app_pool = "tracker_cell RoundRobin"
type_synonym app_world = "tracker_cell world"

text \<open>
  The loop over the servers. The new client is stored under the first reference that the pool
  does not use.
\<close>

fun connect_loop ::
    "env \<Rightarrow> int \<Rightarrow> int \<Rightarrow> SSHServer list \<Rightarrow> app_pool \<Rightarrow> app_world \<Rightarrow> app_pool \<times> app_world" where
  "connect_loop E eagerLimit count [] rr w = (rr, w)"
| "connect_loop E eagerLimit count (server # rest) rr w =
     (let r = length (rr_servers rr);
          lazy = (\<lambda>w. w\<lparr>w_store := (w_store w)(r := NewSSHClientLazy (Some server))\<rparr>)
      in if count < eagerLimit then
           (case NewSSHClient E server (w_tick w) of
              (Inr client, n) \<Rightarrow>
                connect_loop E eagerLimit (count + 1) rest (Add r rr)
                  (w\<lparr>w_store := (w_store w)(r := client), w_tick := n\<rparr>)
            | (Inl err, n) \<Rightarrow>
                connect_loop E eagerLimit count rest (Add r rr)
                  (lazy (on_tracker (RecordFail E (Addr server) (Some err)) (w\<lparr>w_tick := n\<rparr>))))
         else connect_loop E eagerLimit count rest (Add r rr) (lazy w))"

definition eager_limit :: "Configuration \<Rightarrow> int" where
  "eager_limit cfg = (if cf_Strategy cfg = StrategyFailover then 1 else cf_MaxActiveUpstreams cfg)"

text \<open>\<open>Inl\<close> is the message of a \<open>log.Fatal\<close>.\<close>

definition connectServers ::
    "env \<Rightarrow> disk \<Rightarrow> json \<Rightarrow> startup_io \<Rightarrow> Configuration \<Rightarrow> fs \<Rightarrow> app_world \<Rightarrow> string + (app_pool \<times> app_world)" where
  "connectServers E D J io cfg fs w =
     (case ParseServersFile E (open_servers io) (cf_ServersFile cfg) (cf_Username cfg) (cf_KeyFile cfg)
             (cf_ProxyCommand cfg) (cf_Cloudflared cfg) (w_tick w) of
        (Inl err, n) \<Rightarrow> Inl (''Failed to parse servers: '' @ Error err)
      | (Inr servers, n) \<Rightarrow>
     if servers = [] then Inl ''No servers configured''
     else
       (let rr = (NewRoundRobin (cf_Strategy cfg) (cf_MaxActiveUpstreams cfg))
                   \<lparr>rr_OnConnectionError := Some (connectionErrorCallback E)\<rparr>;
            t = NewServerStatusTracker (cf_StatusFile cfg) (cf_StatusLog cfg)
                  (go_int (cf_StatusFlushSec cfg * second))
        in case Load D J t fs n of
             (_, t1, n1) \<Rightarrow>
               (case connect_loop E (eager_limit cfg) 0 servers rr
                       (w\<lparr>w_tick := n1, w_cb := Some (Inr t1)\<rparr>) of
                  (rr1, w1) \<Rightarrow>
                    if Len rr1 = 0 then Inl ''No servers available'' else Inr (rr1, w1))))"

section \<open>app.go\<close>

text \<open>
  The steps of \<open>Run\<close> up to the connected pool. \<open>Inl\<close> is the exit code of the process, which then
  runs no deferred function, and so does not remove its PID file.
\<close>

definition setupLogging :: "os \<Rightarrow> Configuration \<Rightarrow> App \<Rightarrow> tick \<Rightarrow> int + App" where
  "setupLogging M cfg a n =
     (if cf_LogFile cfg \<noteq> [] then
        (case open_error M n (cf_LogFile cfg) of
           Some err \<Rightarrow> Inl 1
         | None \<Rightarrow> Inr (a\<lparr>a_logFile := True\<rparr>))
      else Inr a)"

text \<open>A failure to write the PID file is only logged.\<close>

definition writePID :: "os \<Rightarrow> Configuration \<Rightarrow> fs \<Rightarrow> tick \<Rightarrow> fs \<times> tick" where
  "writePID M cfg fs n = (case WritePID M (cf_PIDFile cfg) n of (_, ops, n1) \<Rightarrow> (fs_run fs ops, n1))"

definition startListener :: "startup_io \<Rightarrow> Configuration \<Rightarrow> App \<Rightarrow> tick \<Rightarrow> int + App" where
  "startListener io cfg a n =
     (case listen_error io n (cf_BindAddr cfg) of
        Some err \<Rightarrow> Inl 1
      | None \<Rightarrow> Inr (a\<lparr>a_listener := True\<rparr>))"

definition startup ::
    "env \<Rightarrow> os \<Rightarrow> json \<Rightarrow> startup_io \<Rightarrow> Configuration \<Rightarrow> fs \<Rightarrow> app_world \<Rightarrow>
     (int + (App \<times> app_pool \<times> app_world)) \<times> fs" where
  "startup E M J io cfg fs w =
     (case setupLogging M cfg (New cfg) (w_tick w) of
        Inl code \<Rightarrow> (Inl code, fs)
      | Inr a \<Rightarrow>
     (case writePID M cfg fs (w_tick w + 1) of
        (fs1, n) \<Rightarrow>
     (case startListener io cfg a n of
        Inl code \<Rightarrow> (Inl code, fs1)
      | Inr a1 \<Rightarrow>
          (case connectServers E (os_disk M) J io cfg fs1 (w\<lparr>w_tick := n + 1\<rparr>) of
             Inl msg \<Rightarrow> (Inl 1, fs1)
           | Inr (rr, w1) \<Rightarrow> (Inr (a1, rr, w1), fs1)))))"

text \<open>
  The accept loop reacts to what \<open>Accept\<close> returns; handlers and the signal handler run beside it
  and act on the channels. Before each \<open>Accept\<close> the loop looks at \<open>shutdownCh\<close>; the component
  \<open>l_running\<close> tells whether it goes on.
\<close>

datatype accept_event = ClientConnects | AcceptFails | HandlerReturns | ShutdownCloses

record accept_loop =
  l_app :: App
  l_running :: bool
  l_handled :: int
  l_rejected :: int

definition loop_top :: "accept_loop \<Rightarrow> accept_loop" where
  "loop_top s = s\<lparr>l_running := l_running s \<and> \<not> a_shutdownCh (l_app s)\<rparr>"

fun acceptLoop :: "accept_loop \<Rightarrow> accept_event \<Rightarrow> accept_loop" where
  "acceptLoop s ClientConnects =
     (if \<not> l_running s then s
      else
        (let a = l_app s in
         if a_slots a < a_connSem a then
           loop_top (s\<lparr>l_app := a\<lparr>a_slots := a_slots a + 1\<rparr>, l_handled := l_handled s + 1\<rparr>)
         else loop_top (s\<lparr>l_rejected := l_rejected s + 1\<rparr>)))"
| "acceptLoop s AcceptFails = (if \<not> l_running s then s else loop_top s)"
| "acceptLoop s HandlerReturns =
     (let a = l_app s in if 0 < a_slots a then s\<lparr>l_app := a\<lparr>a_slots := a_slots a - 1\<rparr>\<rparr> else s)"
| "acceptLoop s ShutdownCloses = s\<lparr>l_app := (l_app s)\<lparr>a_shutdownCh := True\<rparr>\<rparr>"

definition start_accepting :: "App \<Rightarrow> accept_loop" where
  "start_accepting a = loop_top \<lparr>l_app = a, l_running = True, l_handled = 0, l_rejected = 0\<rparr>"

section \<open>shutdown.go\<close>

text \<open>The lines that a health check logs; \<open>%v\<close> prints a list in brackets.\<close>

definition print_list :: "string list \<Rightarrow> string" where
  "print_list xs = ''['' @ Join '' '' xs @ '']''"

definition runHealthCheckCycle ::
    "env \<Rightarrow> Configuration \<Rightarrow> app_pool \<Rightarrow> app_world \<Rightarrow> string list \<times> app_pool \<times> app_world" where
  "runHealthCheckCycle E cfg rr w =
     (case CleanupExpiredTargets E rr w of
        (rr1, w1) \<Rightarrow>
     (case RunHealthChecks E rr1 w1 of
        (report, rr2, w2) \<Rightarrow>
     if hr_Checked report = 0 then ([], rr2, w2)
     else
       ((if hr_SwitchedFrom report \<noteq> [] \<or> hr_SwitchedTo report \<noteq> [] then
           [''Health check switch: from='' @ hr_SwitchedFrom report @ '' to='' @ hr_SwitchedTo report] else []) @
        (if hr_Failed report \<noteq> [] then
           [''Health check failed upstreams: '' @ print_list (hr_Failed report)] else []) @
        (if hr_Recovered report \<noteq> [] then
           [''Health check recovered upstreams: '' @ print_list (hr_Recovered report)] else []) @
        (if cf_ShowUpstreamStats cfg then [''Upstream stats: '' @ StatsSummary rr2 w2] else []),
        rr2, w2)))"

datatype health_event = HealthTick | HealthStop

fun health_loop ::
    "env \<Rightarrow> Configuration \<Rightarrow> health_event list \<Rightarrow> app_pool \<Rightarrow> app_world \<Rightarrow> string list \<times> app_pool \<times> app_world" where
  "health_loop E cfg [] rr w = ([], rr, w)"
| "health_loop E cfg (HealthStop # es) rr w = ([], rr, w)"
| "health_loop E cfg (HealthTick # es) rr w =
     (case runHealthCheckCycle E cfg rr w of
        (lines, rr1, w1) \<Rightarrow>
          (case health_loop E cfg es rr1 w1 of (lines1, rr2, w2) \<Rightarrow> (lines @ lines1, rr2, w2)))"

text \<open>\<open>time.NewTicker\<close> panics for an interval that is not positive.\<close>

definition startHealthCheck ::
    "env \<Rightarrow> Configuration \<Rightarrow> health_event list \<Rightarrow> app_pool \<Rightarrow> app_world \<Rightarrow>
     go_panic + (string list \<times> app_pool \<times> app_world)" where
  "startHealthCheck E cfg es rr w =
     (if \<not> cf_HealthCheck cfg then Inr ([], rr, w)
      else if cf_HealthInterval cfg \<le> 0 then Inl NonPositiveTicker
      else Inr (health_loop E cfg es rr w))"

text \<open>
  What the goroutine of \<open>handleSignals\<close> does with the first signal. The tracker exists by then, or
  the process has panicked before.
\<close>

definition handleSignals ::
    "env \<Rightarrow> disk \<Rightarrow> json \<Rightarrow> Configuration \<Rightarrow> App \<Rightarrow> app_pool \<Rightarrow> app_world \<Rightarrow>
     go_panic + (App \<times> app_pool \<times> app_world \<times> string list \<times> fs_op list)" where
  "handleSignals E D J cfg a rr w =
     (let a1 = a\<lparr>a_shutdownCh := True, a_healthStop := True\<rparr>;
          stats = (if cf_ShowUpstreamStats cfg then [''Final upstream stats: '' @ StatsSummary rr w] else [])
      in case w_cb w of
           Some (Inr t) \<Rightarrow>
             (case Flush E D J t (w_tick w) of
                (Inl p, _, _) \<Rightarrow> Inl p
              | (Inr err, ops, n) \<Rightarrow>
                  (case StatusFile.Stop t of
                     Inl p \<Rightarrow> Inl p
                   | Inr t1 \<Rightarrow>
                       (case CloseAll E rr (w\<lparr>w_tick := n, w_cb := Some (Inr t1)\<rparr>) of
                          (rr1, w1) \<Rightarrow>
                            Inr (a1\<lparr>a_listener := False, a_logFile := False\<rparr>, rr1, w1,
                                 stats @ (case err of None \<Rightarrow> []
                                          | Some e \<Rightarrow> [''Warning: failed to flush status file: '' @ Error e]),
                                 ops))))
         | Some (Inl p) \<Rightarrow> Inl p
         | None \<Rightarrow> Inl NilDereference)"

section \<open>The pool after starting up\<close>

definition eager_ok :: "env \<Rightarrow> int \<Rightarrow> int \<Rightarrow> nat \<Rightarrow> SSHServer list \<Rightarrow> app_world \<Rightarrow> bool" where
  "eager_ok E lim k n servers w \<longleftrightarrow>
     (\<forall>i < length servers.
        c_server (w_store w (n + i)) = Some (servers ! i) \<and>
        (up w (n + i) \<or> lim \<le> k + int (length (filter (up w) [n..<n + i])) \<or>
         (\<exists>m e m1. NewSSHClient E (servers ! i) m = (Inl e, m1)))) \<and>
     k + int (length (filter (up w) [n..<n + length servers])) \<le> max k lim"

lemma filter_upt_Cons:
  "length (filter P [n..<n + Suc i]) = (if P n then 1 else 0) + length (filter P [Suc n..<Suc n + i])"
proof -
  have "[n..<n + Suc i] = n # [Suc n..<Suc n + i]" by (simp add: upt_conv_Cons del: upt_Suc)
  then show ?thesis by (simp del: upt_Suc)
qed

lemma eager_ok_Cons:
  assumes "c_server (w_store w n) = Some s" and "\<not> up w n \<longrightarrow> lim \<le> k \<or> (\<exists>m e m1. NewSSHClient E s m = (Inl e, m1))"
    and "up w n \<longrightarrow> k < lim" and "eager_ok E lim (if up w n then k + 1 else k) (Suc n) ss w"
  shows "eager_ok E lim k n (s # ss) w"
proof -
  have "c_server (w_store w (n + i)) = Some ((s # ss) ! i) \<and>
      (up w (n + i) \<or> lim \<le> k + int (length (filter (up w) [n..<n + i])) \<or>
       (\<exists>m e m1. NewSSHClient E ((s # ss) ! i) m = (Inl e, m1)))" if "i < length (s # ss)" for i
  proof (cases i)
    case 0
    with assms(1,2) show ?thesis by auto
  next
    case (Suc j)
    have "j < length ss" using that Suc by simp
    with assms(4) have "c_server (w_store w (Suc n + j)) = Some (ss ! j) \<and>
      (up w (Suc n + j) \<or>
       lim \<le> (if up w n then k + 1 else k) + int (length (filter (up w) [Suc n..<Suc n + j])) \<or>
       (\<exists>m e m1. NewSSHClient E (ss ! j) m = (Inl e, m1)))"
      unfolding eager_ok_def by blast
    then show ?thesis unfolding Suc filter_upt_Cons by (auto split: if_splits)
  qed
  moreover have "k + int (length (filter (up w) [n..<n + length (s # ss)])) \<le> max k lim"
  proof -
    have "length (s # ss) = Suc (length ss)" by simp
    with assms(3,4) show ?thesis
      unfolding eager_ok_def by (simp only: filter_upt_Cons) (auto simp: max_def split: if_splits)
  qed
  ultimately show ?thesis unfolding eager_ok_def by blast
qed

text \<open>Storing a new client and adding it keeps what the loop maintains.\<close>

lemma add_stored:
  assumes "pool_wf rr w" and "rr_servers rr = [0..<n]" and "client_wf c"
    and "w_store w1 = (w_store w)(n := c)"
  shows "pool_wf (Add n rr) w1" and "rr_servers (Add n rr) = [0..<Suc n]"
proof -
  have "n \<notin> set (rr_servers rr)" using assms(2) by simp
  from add_client_wf(2) [OF assms(1) this assms(3)] show "pool_wf (Add n rr) w1"
    using pool_wf_store [of w1 "w\<lparr>w_store := (w_store w)(n := c)\<rparr>" "Add n rr"] assms(4) by simp
qed (use assms(2) in \<open>simp add: Add_def\<close>)

definition loop_result ::
    "env \<Rightarrow> int \<Rightarrow> int \<Rightarrow> nat \<Rightarrow> SSHServer list \<Rightarrow> app_pool \<Rightarrow> app_world \<Rightarrow> app_pool \<Rightarrow> app_world \<Rightarrow> bool" where
  "loop_result E lim k n ss rr w rr' w' \<longleftrightarrow>
     rr' = rr\<lparr>rr_servers := [0..<n + length ss]\<rparr> \<and> pool_wf rr' w' \<and> cell_wf (w_cb w') \<and>
     (\<forall>r < n. w_store w' r = w_store w r) \<and> eager_ok E lim k n ss w'"

lemma loop_result_Cons:
  assumes "loop_result E lim (if connected c then k + 1 else k) (Suc n) ss (Add n rr) w1 rr' w'"
    and "w_store w1 = (w_store w)(n := c)" and "c_server c = Some s"
    and "connected c \<longrightarrow> k < lim" and "\<not> connected c \<longrightarrow> lim \<le> k \<or> (\<exists>m e m1. NewSSHClient E s m = (Inl e, m1))"
  shows "loop_result E lim k n (s # ss) rr w rr' w'"
proof -
  from assms(1,2) have c: "w_store w' n = c" and up: "up w' n = connected c"
    by (simp_all add: loop_result_def up_def)
  have "eager_ok E lim k n (s # ss) w'"
    by (rule eager_ok_Cons) (use assms c up in \<open>auto simp: loop_result_def\<close>)
  with assms(1,2) show ?thesis by (auto simp: loop_result_def Add_def)
qed

lemma connect_loop_result:
  assumes "ssh_library_ok E"
    and "connect_loop E lim k ss rr w = (rr', w')" and "rr_servers rr = [0..<n]" and "pool_wf rr w"
    and "cell_wf (w_cb w)"
  shows "loop_result E lim k n ss rr w rr' w'"
  using assms(2-)
proof (induction ss arbitrary: k rr w n)
  case Nil
  then show ?case by (cases rr) (auto simp: loop_result_def eager_ok_def)
next
  case (Cons s ss)
  have len: "length (rr_servers rr) = n" using Cons.prems(2) by simp
  let ?lazy = "NewSSHClientLazy (Some s)"
  have lazy: "client_wf ?lazy" "\<not> connected ?lazy" "c_server ?lazy = Some s" using NewSSHClientLazy_wf by simp_all
  have step: "loop_result E lim k n (s # ss) rr w rr' w'"
    if "connect_loop E lim (if connected c then k + 1 else k) ss (Add n rr) w1 = (rr', w')"
      and "w_store w1 = (w_store w)(n := c)" and "client_wf c" and "c_server c = Some s" and "cell_wf (w_cb w1)"
      and "connected c \<longrightarrow> k < lim" and "\<not> connected c \<longrightarrow> lim \<le> k \<or> (\<exists>m e m1. NewSSHClient E s m = (Inl e, m1))"
    for c w1
    using loop_result_Cons [OF Cons.IH [OF that(1) add_stored(2,1) that(5)] that(2,4,6,7)] Cons.prems(2,3) that(2,3)
    by blast
  show ?case
  proof (cases "k < lim")
    case False
    with Cons.prems lazy len show ?thesis
      by (intro step [of ?lazy "w\<lparr>w_store := (w_store w)(n := ?lazy)\<rparr>"]) (simp_all add: Let_def)
  next
    case True
    obtain res m where res: "NewSSHClient E s (w_tick w) = (res, m)" by (metis surj_pair)
    show ?thesis
    proof (cases res)
      case (Inr c)
      with res have "NewSSHClient E s (w_tick w) = (Inr c, m)" by simp
      note c = NewSSHClient_wf [OF assms(1) this]
      from Cons.prems(1,4) res Inr True len c show ?thesis
        by (intro step [of c "w\<lparr>w_store := (w_store w)(n := c), w_tick := m\<rparr>"]) (simp_all add: Let_def)
    next
      case (Inl err)
      let ?w1 = "on_tracker (RecordFail E (Addr s) (Some err)) (w\<lparr>w_tick := m\<rparr>)"
      have "cell_wf (w_cb ?w1)"
        using record_cell_wf(1) [OF Cons.prems(4)] by (simp add: on_tracker_cb)
      with Cons.prems(1) res Inl True len lazy show ?thesis
        by (intro step [of ?lazy "?w1\<lparr>w_store := (w_store w)(n := ?lazy)\<rparr>"]) (auto simp: Let_def)
    qed
  qed
qed

text \<open>C37: Starting up registers every server of the file, in its order and each with its description,
  in a pool that satisfies the pool's invariant, with the configured strategy and limit and with
  the tracker as the callback's state. At most as many servers are connected as the strategy
  wants at once, and a server is left unconnected only when that many before it were connected
  or when an attempt to connect to it failed.\<close>

theorem connect_servers_pool:
  assumes "ssh_library_ok E"
    and "ParseServersFile E (open_servers io) (cf_ServersFile cfg) (cf_Username cfg) (cf_KeyFile cfg)
           (cf_ProxyCommand cfg) (cf_Cloudflared cfg) (w_tick w) = (Inr servers, n)" and "servers \<noteq> []"
    and "Load D J (NewServerStatusTracker (cf_StatusFile cfg) (cf_StatusLog cfg)
           (go_int (cf_StatusFlushSec cfg * second))) fs n = (err, t, n1)" and "tracker_wf t"
  shows "\<exists>rr w'. connectServers E D J io cfg fs w = Inr (rr, w') \<and> pool_wf rr w' \<and> cell_wf (w_cb w') \<and>
    rr_strategy rr = normalizeStrategy (cf_Strategy cfg) \<and>
    rr_OnConnectionError rr = Some (connectionErrorCallback E) \<and>
    map (\<lambda>r. c_server (w_store w' r)) (rr_servers rr) = map Some servers \<and> distinct (rr_servers rr) \<and>
    int (length (filter (up w') (rr_servers rr))) \<le> max 0 (eager_limit cfg) \<and>
    (\<forall>i < length servers. up w' (rr_servers rr ! i) \<or>
       eager_limit cfg \<le> int (length (filter (up w') (take i (rr_servers rr)))) \<or>
       (\<exists>m e m1. NewSSHClient E (servers ! i) m = (Inl e, m1)))"
proof -
  let ?rr = "(NewRoundRobin (cf_Strategy cfg) (cf_MaxActiveUpstreams cfg) :: app_pool)
    \<lparr>rr_OnConnectionError := Some (connectionErrorCallback E)\<rparr>"
  let ?w = "w\<lparr>w_tick := n1, w_cb := Some (Inr t)\<rparr>"
  obtain rr w' where loop: "connect_loop E (eager_limit cfg) 0 servers ?rr ?w = (rr, w')" by (metis surj_pair)
  have "pool_wf ?rr ?w"
    using NewRoundRobin_wf [of "cf_Strategy cfg" "cf_MaxActiveUpstreams cfg" ?w]
    by (simp add: pool_wf_def cursor_wf_def servers_wf_def)
  moreover have "rr_servers ?rr = [0..<0]" by (simp add: NewRoundRobin_def)
  moreover have "cell_wf (w_cb ?w)" using assms(5) by (simp add: cell_wf_def)
  ultimately have res: "loop_result E (eager_limit cfg) 0 0 servers ?rr ?w rr w'"
    using connect_loop_result [OF assms(1) loop] by blast
  then have rr: "rr = ?rr\<lparr>rr_servers := [0..<length servers]\<rparr>" by (simp add: loop_result_def)
  have "Len rr \<noteq> 0" using assms(3) by (simp add: rr Len_def)
  then have conn: "connectServers E D J io cfg fs w = Inr (rr, w')"
    using assms(2-4) loop by (simp add: connectServers_def Let_def)
  have "map (\<lambda>r. c_server (w_store w' r)) (rr_servers rr) = map Some servers"
    using res by (intro nth_equalityI) (auto simp: rr loop_result_def eager_ok_def)
  moreover have "rr_strategy rr = normalizeStrategy (cf_Strategy cfg)"
    "rr_OnConnectionError rr = Some (connectionErrorCallback E)" "rr_servers rr = [0..<length servers]"
    by (simp_all add: rr NewRoundRobin_def)
  ultimately show ?thesis
    using conn res by (auto simp: loop_result_def eager_ok_def take_upt)
qed

section \<open>The accept loop\<close>

definition loop_ok :: "int \<Rightarrow> accept_loop \<Rightarrow> bool" where
  "loop_ok k s \<longleftrightarrow> a_connSem (l_app s) = k \<and> 0 \<le> a_slots (l_app s) \<and> a_slots (l_app s) \<le> k"

lemma loop_top_app [simp]: "l_app (loop_top s) = l_app s" "l_handled (loop_top s) = l_handled s"
  "l_rejected (loop_top s) = l_rejected s"
  by (simp_all add: loop_top_def)

interpretation accept_machine: machine acceptLoop "loop_ok k" for k
proof
  show "loop_ok k s \<Longrightarrow> loop_ok k (acceptLoop s e)" for s e
    by (cases e) (auto simp: loop_ok_def Let_def)
qed

text \<open>A loop that has ended, or that will after one more return of \<open>Accept\<close>.\<close>

definition loop_ended :: "int \<Rightarrow> accept_loop \<Rightarrow> bool" where
  "loop_ended k s \<longleftrightarrow> \<not> l_running s \<and> l_handled s = k"

definition loop_ending :: "int \<Rightarrow> accept_loop \<Rightarrow> bool" where
  "loop_ending k s \<longleftrightarrow> a_shutdownCh (l_app s) \<and> (l_running s \<longrightarrow> l_handled s \<le> k) \<and> l_handled s \<le> k + 1"

interpretation ended_machine: machine acceptLoop "loop_ended k" for k
proof
  show "loop_ended k s \<Longrightarrow> loop_ended k (acceptLoop s e)" for s e
    by (cases e) (auto simp: loop_ended_def Let_def loop_top_def)
qed

interpretation ending_machine: machine acceptLoop "loop_ending k" for k
proof
  show "loop_ending k s \<Longrightarrow> loop_ending k (acceptLoop s e)" for s e
    by (cases e) (auto simp: loop_ending_def Let_def loop_top_def)
qed

lemma accept_after_shutdown:
  "a_shutdownCh (l_app s) \<Longrightarrow> e \<in> {ClientConnects, AcceptFails} \<Longrightarrow> \<not> l_running (acceptLoop s e)"
  by (auto simp: Let_def loop_top_def split: if_splits)

text \<open>C38: However clients, failures of \<open>Accept\<close>, returning handlers and the shutdown interleave, no more
  handlers run at once than the connection limit, which is 100 when none or a negative one is
  configured; after the shutdown at most one more client is handled, and once \<open>Accept\<close> has
  returned again the loop has ended for good.\<close>

theorem accept_loop_bounded:
  assumes "s = foldl acceptLoop (start_accepting (New cfg)) es"
    and "s' = foldl acceptLoop (acceptLoop s ShutdownCloses) es'"
  shows "0 \<le> a_slots (l_app s) \<and> a_slots (l_app s) \<le> a_connSem (l_app s) \<and>
    a_connSem (l_app s) = (if cf_MaxConnections cfg \<le> 0 then 100 else cf_MaxConnections cfg) \<and>
    l_handled s' \<le> l_handled s + 1 \<and>
    (set es' \<inter> {ClientConnects, AcceptFails} \<noteq> {} \<longrightarrow> \<not> l_running s')"
proof -
  let ?k = "if cf_MaxConnections cfg \<le> 0 then 100 else cf_MaxConnections cfg"
  have "loop_ok ?k (start_accepting (New cfg))"
    by (simp add: loop_ok_def start_accepting_def New_def Let_def)
  from accept_machine.run_inv [OF this] have "loop_ok ?k s" by (simp add: assms(1))
  moreover have ending: "loop_ending (l_handled s) (acceptLoop s ShutdownCloses)"
    by (simp add: loop_ending_def)
  from ending_machine.run_inv [OF this] have "loop_ending (l_handled s) s'" by (simp add: assms(2))
  moreover have "\<not> l_running s'" if ret: "e \<in> set es'" "e \<in> {ClientConnects, AcceptFails}" for e
  proof -
    from ret(1) obtain es1 es2 where es': "es' = es1 @ e # es2" by (meson split_list)
    let ?t = "foldl acceptLoop (acceptLoop s ShutdownCloses) es1"
    have "a_shutdownCh (l_app ?t)" using ending_machine.run_inv [OF ending] by (simp add: loop_ending_def)
    from accept_after_shutdown [OF this ret(2)]
    have "loop_ended (l_handled (acceptLoop ?t e)) (acceptLoop ?t e)" by (simp add: loop_ended_def)
    from ended_machine.run_inv [OF this, of es2] show ?thesis
      by (simp add: assms(2) es' loop_ended_def)
  qed
  ultimately show ?thesis by (auto simp: loop_ok_def loop_ending_def)
qed

section \<open>A second instance\<close>

text \<open>C39: A second instance takes the PID file with it: the PID file is written before the address is
  bound, so when the address is in use (by the running daemon, say) the process exits with code 1
  and the file names the process that has just exited, whatever it named before; the running
  daemon can then no longer be found with \<open>-stop\<close> or \<open>-status\<close>.\<close>

theorem second_instance_pid:
  assumes "cf_LogFile cfg = []" and "cf_PIDFile cfg = path" and "path \<noteq> []"
    and "WritePID M path (w_tick w + 1) = (None, ops, n)" and "in_int64 (own_pid M)"
    and "listen_error io n (cf_BindAddr cfg) = Some e" and "read_error (os_disk M) m = None"
  shows "\<exists>fs'. startup E M J io cfg fs w = (Inl 1, fs') \<and> fst (ReadPID M path fs' m) = Inr (own_pid M)"
proof -
  from assms(3,4) have "os_WriteFile M path (Itoa (own_pid M) @ [CHR 0x0A]) (w_tick w + 1) = (None, ops, n)"
    by (auto simp: WritePID_def split: prod.splits option.splits)
  from os_WriteFile_ok [OF this] have "fs_run fs ops = fs(path \<mapsto> Itoa (own_pid M) @ [CHR 0x0A])" .
  with assms show ?thesis
    by (simp add: startup_def setupLogging_def writePID_def startListener_def ReadPID_def ReadFile_def
        TrimSpace_Itoa_newline Atoi_Itoa)
qed

section \<open>Shutting down\<close>

lemma Flush_no_panic:
  assumes "tracker_wf t"
  shows "\<exists>err ops n1. Flush E D J t n = (Inr err, ops, n1)"
proof -
  obtain xs where "collect_entries Some (t_entries t) = Inr xs"
    using collect_entries_wf [of "t_entries t" Some] assms by (auto simp: tracker_wf_def)
  then show ?thesis by (simp add: Flush_def split: sum.split option.split)
qed


section \<open>Witnesses\<close>

definition sample_cfg :: Configuration where
  "sample_cfg = Configuration.truncate ((config_defaults Map.empty False False [])
     \<lparr>cf_PIDFile := ''rr.pid'', cf_StatusFile := []\<rparr>)"

definition busy_io :: startup_io where
  "busy_io = \<lparr>open_servers = (\<lambda>p. Inr (file_text [Upstream ''a'' 22 ''x'', Upstream ''b'' 22 ''y''], None)),
     listen_error = (\<lambda>n a. Some (Sentinel ''address already in use''))\<rparr>"

definition fresh_world :: app_world where
  "fresh_world = \<lparr>w_tick = 0, w_store = (\<lambda>_. NewSSHClientLazy None), w_cb = None\<rparr>"

lemma sample_cfg_fields:
  "cf_LogFile sample_cfg = []" "cf_PIDFile sample_cfg = ''rr.pid''" "cf_StatusFile sample_cfg = []"
  "cf_Strategy sample_cfg = StrategyFailover" "cf_KeyFile sample_cfg = []" "cf_ProxyCommand sample_cfg = []"
  "cf_Cloudflared sample_cfg = False"
  by (simp_all add: sample_cfg_def config_defaults_def Configuration.truncate_def getEnv_def Getenv_def)

theorem accept_loop_bounded_witness:
  "l_handled (foldl acceptLoop (acceptLoop (start_accepting (New sample_cfg)) ShutdownCloses)
     [ClientConnects, ClientConnects]) \<le> 1"
proof -
  have "l_handled (start_accepting (New sample_cfg)) = 0" by (simp add: start_accepting_def)
  with accept_loop_bounded [where es = "[]" and es' = "[ClientConnects, ClientConnects]" and cfg = sample_cfg, OF refl refl]
  show ?thesis by simp
qed

theorem second_instance_pid_witness:
  "\<exists>fs'. startup (sample_env []) sample_os (sample_json sample_file) busy_io sample_cfg [''rr.pid'' \<mapsto> ''7''] fresh_world = (Inl 1, fs') \<and>
     fst (ReadPID sample_os ''rr.pid'' fs' 9) = Inr 42"
proof -
  have w: "WritePID sample_os ''rr.pid'' (w_tick fresh_world + 1) =
      (None, [CreateFile ''rr.pid'', WriteFile ''rr.pid'' (''42'' @ [CHR 0x0A])], 4)"
    by code_simp
  have pid: "own_pid sample_os = 42" by (simp add: sample_os_def)
  then show ?thesis
    using second_instance_pid [OF sample_cfg_fields(1,2) _ w, where io = busy_io and m = 9 and E = "sample_env []"
        and J = "sample_json sample_file" and fs = "[''rr.pid'' \<mapsto> ''7'']"]
    by (simp add: busy_io_def) (simp add: sample_os_def sample_disk_def in_int64_def)
qed


theorem connect_servers_pool_witness:
  "\<exists>rr w'. connectServers (sample_env [''b:22'']) sample_disk (sample_json sample_file) busy_io sample_cfg Map.empty fresh_world = Inr (rr, w') \<and>
     map (\<lambda>r. c_server (w_store w' r)) (rr_servers rr) =
       map Some (map (server_for ''root'' [] [] False) [(''a'', 22, ''x''), (''b'', 22, ''y'')])"
proof -
  let ?ss = "map (server_for ''root'' [] [] False) [(''a'', 22, ''x''), (''b'', 22, ''y'')]"
  have user: "cf_Username sample_cfg = ''root''"
    by (simp add: sample_cfg_def config_defaults_def Configuration.truncate_def getEnv_def Getenv_def)
  have "TrimSpace ''a:22:x'' = ''a:22:x''" "TrimSpace ''b:22:y'' = ''b:22:y''" by code_simp+
  then have "\<forall>l \<in> set [Upstream ''a'' 22 ''x'', Upstream ''b'' 22 ''y'']. line_ok l"
    by (simp add: line_shape_def dropCR_def Itoa_22 in_int64_def)
  from scan_file_text [OF this] parse_file_lines [OF this]
  have p: "ParseServersFile (sample_env [''b:22'']) (open_servers busy_io) (cf_ServersFile sample_cfg)
      (cf_Username sample_cfg) (cf_KeyFile sample_cfg) (cf_ProxyCommand sample_cfg) (cf_Cloudflared sample_cfg)
      (w_tick fresh_world) = (Inr ?ss, 0)"
    by (simp add: ParseServersFile_def busy_io_def sample_cfg_fields user fresh_world_def)
  have l: "Load sample_disk (sample_json sample_file) (NewServerStatusTracker (cf_StatusFile sample_cfg) (cf_StatusLog sample_cfg)
      (go_int (cf_StatusFlushSec sample_cfg * second))) Map.empty 0 =
      (None, NewServerStatusTracker (cf_StatusFile sample_cfg) (cf_StatusLog sample_cfg)
        (go_int (cf_StatusFlushSec sample_cfg * second)), 0)"
    by (simp add: Load_def NewServerStatusTracker_def sample_cfg_fields)
  have "?ss \<noteq> []" by simp
  from connect_servers_pool [OF sample_env_ok p this l NewServerStatusTracker_wf] show ?thesis by blast
qed

end
