(* ===== verification/CommandPipes.thy ===== *)
theory CommandPipes
  imports Tunnel
begin

text \<open>
  Reading from and writing to a connection over a child process's pipes (\<open>Read\<close> and \<open>Write\<close> of
  \<open>internal/sshroundrobin/commandconn.go\<close>): the connection's own state is that of \<open>CommandConn\<close>,
  the child is a stream of \<open>Tunnel\<close>, whose input is what the child writes to its standard output.
  A read returns as many bytes as the pipe holds at that moment (\<open>avail\<close>, at least one).
\<close>

definition ErrClosed :: go_error where
  "ErrClosed = Sentinel ''file already closed''"

definition Conn_Read ::
    "nat \<Rightarrow> nat \<Rightarrow> commandConn \<Rightarrow> net_conn \<Rightarrow> ((go_error + byte list) \<times> net_conn) option" where
  "Conn_Read avail n c child =
     (if \<not> k_stdout_open c then Some (Inl ErrClosed, child)
      else if n = 0 then Some (Inr [], child)
      else if c_in child = [] then map_option (\<lambda>e. (Inl e, child)) (c_end child)
      else (let k = min n (max 1 avail)
            in Some (Inr (take k (c_in child)), child\<lparr>c_in := drop k (c_in child)\<rparr>)))"

definition Conn_Write :: "byte list \<Rightarrow> commandConn \<Rightarrow> net_conn \<Rightarrow> go_error option \<times> net_conn" where
  "Conn_Write bs c child = (if \<not> k_stdin_open c then (Some ErrClosed, child) else Write bs child)"

section \<open>Properties\<close>

text \<open>Nothing is lost or repeated between reads, and a read of a nonempty buffer makes progress.\<close>

lemma Conn_Read_Inr:
  assumes "Conn_Read avail n c child = Some (Inr bs, child1)"
  shows "c_in child = bs @ c_in child1" and "length bs \<le> n" and "0 < n \<longrightarrow> bs \<noteq> []"
    and "c_out child1 = c_out child"
  using assms by (auto simp: Conn_Read_def Let_def split: if_splits)

text \<open>The bytes that a sequence of reads returns, until one fails.\<close>

fun read_seq :: "(nat \<times> nat) list \<Rightarrow> commandConn \<Rightarrow> net_conn \<Rightarrow> byte list \<times> net_conn" where
  "read_seq [] c child = ([], child)"
| "read_seq ((avail, n) # rs) c child =
     (case Conn_Read avail n c child of
        Some (Inr bs, child1) \<Rightarrow> (case read_seq rs c child1 of (bs1, child2) \<Rightarrow> (bs @ bs1, child2))
      | _ \<Rightarrow> ([], child))"

lemma read_seq_prefix: "read_seq rs c child = (bs, child1) \<Longrightarrow> c_in child = bs @ c_in child1"
proof (induction rs arbitrary: child bs)
  case (Cons r rs)
  obtain avail n where r: "r = (avail, n)" by fastforce
  show ?case
  proof (cases "\<exists>b child0. Conn_Read avail n c child = Some (Inr b, child0)")
    case True
    then obtain b child0 where b: "Conn_Read avail n c child = Some (Inr b, child0)" by blast
    from Cons.prems r b obtain bs1 where "read_seq rs c child0 = (bs1, child1)" "bs = b @ bs1"
      by (auto split: prod.splits)
    with Cons.IH Conn_Read_Inr(1) [OF b] show ?thesis by simp
  next
    case False
    with Cons.prems r show ?thesis by (auto split: option.splits sum.splits)
  qed
qed simp

text \<open>After \<open>Close\<close> both directions fail at once, and nothing reaches the child any more.\<close>

lemma closed_pipes:
  assumes "conn_inv c"
  shows "Conn_Read avail n (Conn_Close c) child = Some (Inl ErrClosed, child)"
    and "Conn_Write bs (Conn_Close c) child = (Some ErrClosed, child)"
  using Conn_Close_inv [OF assms] by (simp_all add: Conn_Read_def Conn_Write_def conn_inv_def)

end
