(* ===== verification/Spec2Isabelle.thy ===== *)
theory Spec2Isabelle
  imports App CommandPipes
begin

text \<open>
  A verification development for ssh-roundrobin, a SOCKS5 and TCP forwarding proxy that spreads
  connections over a pool of upstream SSH servers.

  \<^bold>\<open>The program and its model.\<close> A process reads its configuration (\<open>internal/config\<close>), may fork into
  the background (\<open>internal/daemon\<close>, \<open>cmd/main.go\<close>), reads the list of upstreams, connects some of
  them and accepts clients (\<open>internal/app\<close>). A client connection is handled by \<open>internal/proxy\<close>: the
  target of the request is dialled through an upstream that the pool (\<open>internal/sshroundrobin\<close>)
  selects, and the bytes are copied both ways. Outcomes per upstream are recorded and saved by
  \<open>internal/status\<close>. The theories, in the order of their imports:

  \<^item> \<open>Prelude\<close>, \<open>GoStrings\<close>, \<open>Env\<close>: machine integers, errors, time, the interfaces \<open>codec\<close>,
    \<open>stream_codec\<close> and \<open>machine\<close>; strings, decimal numbers and paths; the surroundings \<open>env\<close>.
  \<^item> \<open>SshServer\<close> (sshserver.go), \<open>CommandConn\<close> and \<open>CommandPipes\<close> (commandconn.go), \<open>SshClient\<close>
    (sshclient.go, lifecycle.go): an upstream, the connection over a proxy command, the client with
    its health and its counters.
  \<^item> \<open>Pool\<close> (roundrobin.go, targetfailure.go), \<open>Strategy\<close> (strategy.go), \<open>TargetFailures\<close>,
    \<open>HealthChecks\<close> (healthcheck.go), \<open>PoolSystem\<close>: the pool's state and operations, load balancing
    and failover, the table of failed targets, the periodic check, and all of it as one step
    relation with its reachable states.
  \<^item> \<open>StatusTracker\<close> (serverstatus.go), \<open>StatusFile\<close> (persistence.go): the record of outcomes, and
    saving and loading it.
  \<^item> \<open>Dialling\<close> (dial.go), \<open>Tunnel\<close> (tunnel.go, forward.go), \<open>Socks5\<close> (socks5.go): dialling a target
    with retries, copying between two connections, both kinds of handlers.
  \<^item> \<open>ServersFile\<close> (servers.go), \<open>Flags\<close>, \<open>AppConfig\<close> (config.go), \<open>Daemon\<close> (daemon.go, main.go), \<open>App\<close>
    (app.go, connect.go, shutdown.go).

  \<^bold>\<open>State.\<close> A struct is a record with the source's fields, prefixed (\<open>rr_\<close> for the pool, \<open>c_\<close> for a
  client, \<open>t_\<close> for the tracker, \<open>cf_\<close> for the configuration). Clients are shared by pointer: the pool
  lists references into the store of a \<open>world\<close>, which also holds the number of interactions so far
  (a tick) and the state of the pool's error callback, the tracker. Each method of the pool runs
  under its lock and is one atomic step; any interleaving of goroutines is a sequence of steps.
  What the operating system, the clock and the SSH library answer is looked up in a record of
  functions at the current tick, so answers may differ from call to call in any way. Errors are
  \<open>Inl\<close> values, panics are values of \<open>go_panic\<close>, exit codes are integers. A call that never returns
  is \<open>None\<close>.

  \<^bold>\<open>What the lemmas show.\<close> Selection: soundness and completeness of both strategies, their order, the
  limit on connections, and the invariant of the pool over all histories. Failed targets: exactly
  when a pair is blocked. Dialling: distinct upstreams, completeness, and that the tracker cannot
  panic. Tracker: it refines the history of outcomes; saving is atomic and loading reads back
  what was saved. SOCKS5: the parser accepts exactly the request grammar, and what either side
  gets in each outcome. Configuration: ranges of every configuration, files and PID files read back.
  Daemon: stopping terminates; a child does not fork again when all arguments are flags. Start
  and shutdown: the pool built from the file, the bound on handlers, the orderly end. Theorems of
  kind error state where the code does not do what it means to, among them the wrapping index of
  load balancing, thresholds that are never reached, the unbracketed IPv6 target, the endless
  chain of forks, and the PID file taken by a second instance.

  \<^bold>\<open>Interfaces.\<close> \<open>codec\<close> is interpreted by decimal numbers; \<open>stream_codec\<close> by the port, the address
  and the request of SOCKS5; \<open>machine\<close> by the connection over pipes, the client and the accept loop;
  \<open>failure_table\<close> and \<open>selector\<close>, the contracts between table, strategies and dialling, by the pool.

  \<^bold>\<open>Bounds.\<close> No definition carries fuel. Loops over lists are structural recursions; scanning of
  strings and flags terminates by length; \<open>dial_loop\<close> counts its rounds down as the code does;
  \<open>wait_exit\<close>, whose end depends on the clock, is a partial function shown to return within 101
  rounds. \<open>int\<close> is 64 bits wide and goes through \<open>go_int\<close> where it is incremented; \<open>uint32\<close> and
  \<open>uint64\<close> are words.

  \<^bold>\<open>Not modelled.\<close> Log output, except lines that the code computes and this development states;
  messages on standard output and error. The scheduling of goroutines other than as interleavings
  of the steps named above. The cryptography and protocol of SSH, the JSON text of the status
  file, godotenv and the text form of durations are parameters, with what is assumed of them as
  named hypotheses (\<open>ssh_library_ok\<close>, \<open>json_ok\<close>, \<open>temp_ok\<close>, \<open>dial_needs_brackets\<close>, \<open>clock_runs\<close>). The type
  \<open>ServerStatus\<close> of roundrobin.go is not used by the program. Strings are bytes; case and white space
  beyond ASCII are treated as far as the comparisons of the program can see them.
\<close>

end
